theory Spec2Isabelle
  imports Main "HOL-Library.Word"
begin

section \<open>Data model of EncryptedDuelGame.sol\<close>

type_synonym address = "160 word"
type_synonym uint32 = "32 word"

text \<open>
  Every way a call of the contract can revert. The first eight are the \<open>require\<close>
  statements of the contract (modifiers included), with the message each one carries;
  \<open>InvalidProof\<close> is the revert of \<open>FHE.fromExternal\<close>, and the last two are the
  panics of Solidity 0.8 (checked arithmetic, array index out of bounds).
\<close>

datatype error =
    NotFound | AlreadyFull | SelfJoin | NotParticipant | AlreadyStarted
  | NoOpponent | NotStarted | DuplicateSubmission | InvalidProof
  | ArithmeticOverflow | IndexOutOfBounds

fun revert_message :: "error \<Rightarrow> string option" where
  "revert_message NotFound = Some ''Game not found''"
| "revert_message AlreadyFull = Some ''Game already has opponent''"
| "revert_message SelfJoin = Some ''Creator cannot join own game''"
| "revert_message NotParticipant = Some ''Not a participant''"
| "revert_message AlreadyStarted = Some ''Game already started''"
| "revert_message NoOpponent = Some ''Waiting for opponent''"
| "revert_message NotStarted = Some ''Game not started''"
| "revert_message DuplicateSubmission = Some ''Already submitted''"
| "revert_message InvalidProof = None"
| "revert_message ArithmeticOverflow = None"
| "revert_message IndexOutOfBounds = None"

subsection \<open>The homomorphic co-processor\<close>

text \<open>
  Modelled from the spec: the library \<open>FHE.sol\<close> (\<open>@fhevm/solidity\<close>), which the
  contract imports and which is not part of the repository. The spec describes it as an
  external capability over opaque handles: \<open>encryptConstant\<close>, \<open>importCiphertext\<close>
  (fails \<open>InvalidProof\<close>), \<open>add\<close>, \<open>sub\<close>, \<open>min\<close>, \<open>greaterThan\<close>, \<open>select\<close>,
  \<open>grantComputation\<close>, \<open>grantViewer\<close>; grants are not inherited. The encryption of a
  constant is a function of the value alone: \<open>FHE.asEuint32 v\<close> returns the same handle
  every time it is called with the same \<open>v\<close>, and issues nothing. An imported input and
  the result of a homomorphic operation take the next number of a counter. A handle is
  paired with the plaintext it encrypts (the contract never reads the plaintext; only
  the theorems do). Arithmetic on \<open>euint32\<close> is unsigned 32-bit and wraps. The
  uninitialised \<open>euint32\<close> of fresh storage has a handle of its own. The access-control
  list holds the persistent grants: \<open>FHE.allowThis\<close> grants to the contract itself,
  \<open>FHE.allow\<close> to an account.
\<close>

datatype handle_id = Uninitialised | Trivial uint32 | Issued nat

datatype euint32 = Euint32 (handle: handle_id) (plain: uint32)
datatype ebool = Ebool (bhandle: handle_id) (truth: bool)

text \<open>
  An encrypted input as the client built it, and the input proof reduced to the verdict
  of the input verifier on it.
\<close>

datatype externalEuint32 = ExternalEuint32 (ext_plain: uint32)
type_synonym inputProof = bool

datatype grantee = ThisContract | Account address

record coproc =
  counter :: nat
  acl :: "(handle_id \<times> grantee) set"

definition fresh :: "coproc \<Rightarrow> coproc" where
  "fresh c = c\<lparr>counter := Suc (counter c)\<rparr>"

definition FHE_asEuint32 :: "uint32 \<Rightarrow> coproc \<Rightarrow> euint32 \<times> coproc" where
  "FHE_asEuint32 v c = (Euint32 (Trivial v) v, c)"

definition FHE_fromExternal ::
  "externalEuint32 \<Rightarrow> inputProof \<Rightarrow> coproc \<Rightarrow> error + euint32 \<times> coproc" where
  "FHE_fromExternal stakeHandle inputProof c =
     (if inputProof then Inr (Euint32 (Issued (counter c)) (ext_plain stakeHandle), fresh c)
      else Inl InvalidProof)"

definition FHE_add :: "euint32 \<Rightarrow> euint32 \<Rightarrow> coproc \<Rightarrow> euint32 \<times> coproc" where
  "FHE_add a b c = (Euint32 (Issued (counter c)) (plain a + plain b), fresh c)"

definition FHE_sub :: "euint32 \<Rightarrow> euint32 \<Rightarrow> coproc \<Rightarrow> euint32 \<times> coproc" where
  "FHE_sub a b c = (Euint32 (Issued (counter c)) (plain a - plain b), fresh c)"

definition FHE_min :: "euint32 \<Rightarrow> euint32 \<Rightarrow> coproc \<Rightarrow> euint32 \<times> coproc" where
  "FHE_min a b c = (Euint32 (Issued (counter c)) (min (plain a) (plain b)), fresh c)"

definition FHE_gt :: "euint32 \<Rightarrow> euint32 \<Rightarrow> coproc \<Rightarrow> ebool \<times> coproc" where
  "FHE_gt a b c = (Ebool (Issued (counter c)) (plain b < plain a), fresh c)"

definition FHE_select :: "ebool \<Rightarrow> euint32 \<Rightarrow> euint32 \<Rightarrow> coproc \<Rightarrow> euint32 \<times> coproc" where
  "FHE_select cond a b c =
     (Euint32 (Issued (counter c)) (if truth cond then plain a else plain b), fresh c)"

definition FHE_allowThis :: "euint32 \<Rightarrow> coproc \<Rightarrow> coproc" where
  "FHE_allowThis v c = c\<lparr>acl := insert (handle v, ThisContract) (acl c)\<rparr>"

definition FHE_allow :: "euint32 \<Rightarrow> address \<Rightarrow> coproc \<Rightarrow> coproc" where
  "FHE_allow v account c = c\<lparr>acl := insert (handle v, Account account) (acl c)\<rparr>"

subsection \<open>Contract storage\<close>

record Game =
  creator :: address
  opponent :: address
  started :: bool
  round :: uint32
  creatorBalance :: euint32
  opponentBalance :: euint32
  creatorScore :: euint32
  opponentScore :: euint32
  creatorStake :: euint32
  opponentStake :: euint32
  creatorSubmitted :: bool
  opponentSubmitted :: bool

record GameState =
  gs_creator :: address
  gs_opponent :: address
  gs_started :: bool
  gs_round :: uint32
  gs_creatorSubmitted :: bool
  gs_opponentSubmitted :: bool
  gs_creatorBalance :: euint32
  gs_opponentBalance :: euint32
  gs_creatorScore :: euint32
  gs_opponentScore :: euint32

datatype event =
    GameCreated nat address
  | GameJoined nat address
  | GameStarted nat
  | StakeSubmitted nat address euint32
  | RoundResolved nat uint32 euint32 euint32 euint32 euint32

text \<open>
  The storage of the contract, the co-processor it talks to, and the log of emitted
  events. Game identifiers are \<open>uint256\<close>: natural numbers, with the checked increment
  of \<open>nextGameId\<close> written out in \<open>createGame\<close>.
\<close>

record contract =
  nextGameId :: nat
  games :: "nat \<Rightarrow> Game"
  gamesByPlayer :: "address \<Rightarrow> nat list"
  fhe :: coproc
  events :: "event list"

definition zero_euint32 :: euint32 where
  "zero_euint32 = Euint32 Uninitialised 0"

definition zero_Game :: Game where
  "zero_Game = \<lparr>creator = 0, opponent = 0, started = False, round = 0,
     creatorBalance = zero_euint32, opponentBalance = zero_euint32,
     creatorScore = zero_euint32, opponentScore = zero_euint32,
     creatorStake = zero_euint32, opponentStake = zero_euint32,
     creatorSubmitted = False, opponentSubmitted = False\<rparr>"

text \<open>The freshly deployed contract: all storage zero, no handle issued yet.\<close>

definition deployed :: contract where
  "deployed = \<lparr>nextGameId = 0, games = (\<lambda>_. zero_Game), gamesByPlayer = (\<lambda>_. []),
     fhe = \<lparr>counter = 0, acl = {}\<rparr>, events = []\<rparr>"

section \<open>The functions of the contract\<close>

definition shareWithContract :: "euint32 \<Rightarrow> coproc \<Rightarrow> coproc" where
  "shareWithContract v c = FHE_allowThis v c"

definition allowTo :: "euint32 \<Rightarrow> address \<Rightarrow> coproc \<Rightarrow> coproc" where
  "allowTo v account c = (if account \<noteq> 0 then FHE_allow v account c else c)"

definition createGame :: "address \<Rightarrow> contract \<Rightarrow> error + nat \<times> contract" where
  "createGame sender s =
     (let gameId = nextGameId s in
      if nextGameId s = 2 ^ 256 - 1 then Inl ArithmeticOverflow
      else
        let game = (games s gameId)\<lparr>creator := sender, round := 1\<rparr> in
        Inr (gameId,
          s\<lparr>nextGameId := nextGameId s + 1,
            games := (games s)(gameId := game),
            gamesByPlayer := (gamesByPlayer s)(sender := gamesByPlayer s sender @ [gameId]),
            events := events s @ [GameCreated gameId sender]\<rparr>))"

definition joinGame :: "address \<Rightarrow> nat \<Rightarrow> contract \<Rightarrow> error + contract" where
  "joinGame sender gameId s =
     (let game = games s gameId in
      if creator game = 0 then Inl NotFound
      else if opponent game \<noteq> 0 then Inl AlreadyFull
      else if creator game = sender then Inl SelfJoin
      else
        Inr (s\<lparr>games := (games s)(gameId := game\<lparr>opponent := sender\<rparr>),
               gamesByPlayer := (gamesByPlayer s)(sender := gamesByPlayer s sender @ [gameId]),
               events := events s @ [GameJoined gameId sender]\<rparr>))"

definition startGame :: "address \<Rightarrow> nat \<Rightarrow> contract \<Rightarrow> error + contract" where
  "startGame sender gameId s =
     (let game = games s gameId in
      if creator game = 0 then Inl NotFound
      else if \<not> (sender = creator game \<or> sender = opponent game) then Inl NotParticipant
      else if started game then Inl AlreadyStarted
      else if opponent game = 0 then Inl NoOpponent
      else
        let (cb, c1) = FHE_asEuint32 100 (fhe s);
            (ob, c2) = FHE_asEuint32 100 c1;
            (cs, c3) = FHE_asEuint32 0 c2;
            (os, c4) = FHE_asEuint32 0 c3;
            (cst, c5) = FHE_asEuint32 0 c4;
            (ost, c6) = FHE_asEuint32 0 c5;
            game = game\<lparr>started := True,
              creatorBalance := cb, opponentBalance := ob,
              creatorScore := cs, opponentScore := os,
              creatorStake := cst, opponentStake := ost,
              creatorSubmitted := False, opponentSubmitted := False\<rparr>;
            c7 = shareWithContract (creatorBalance game) c6;
            c8 = shareWithContract (opponentBalance game) c7;
            c9 = shareWithContract (creatorScore game) c8;
            c10 = shareWithContract (opponentScore game) c9;
            c11 = allowTo (creatorBalance game) (creator game) c10;
            c12 = allowTo (opponentBalance game) (opponent game) c11;
            c13 = allowTo (creatorScore game) (creator game) c12;
            c14 = allowTo (creatorScore game) (opponent game) c13;
            c15 = allowTo (opponentScore game) (creator game) c14;
            c16 = allowTo (opponentScore game) (opponent game) c15
        in Inr (s\<lparr>games := (games s)(gameId := game), fhe := c16,
                  events := events s @ [GameStarted gameId]\<rparr>))"

text \<open>
  \<open>_resolveRound\<close>. Both branches of every \<open>FHE.select\<close> are computed, as the source
  does. \<open>game.round += 1\<close> is checked \<open>uint32\<close> arithmetic: it reverts when the round
  is \<open>2^32 - 1\<close>, which is the word \<open>- 1\<close>.
\<close>

definition resolveRound :: "nat \<Rightarrow> contract \<Rightarrow> error + contract" where
  "resolveRound gameId s =
     (let game = games s gameId;
          resolvedRound = round game;
          (creatorStake', c1) = FHE_min (creatorStake game) (creatorBalance game) (fhe s);
          (opponentStake', c2) = FHE_min (opponentStake game) (opponentBalance game) c1;
          (creatorWins, c3) = FHE_gt creatorStake' opponentStake' c2;
          (opponentWins, c4) = FHE_gt opponentStake' creatorStake' c3;
          (cb_add, c5) = FHE_add (creatorBalance game) opponentStake' c4;
          (cb_sub, c6) = FHE_sub (creatorBalance game) creatorStake' c5;
          (cb_in, c7) = FHE_select opponentWins cb_sub (creatorBalance game) c6;
          (cb_new, c8) = FHE_select creatorWins cb_add cb_in c7;
          game = game\<lparr>creatorBalance := cb_new\<rparr>;
          (ob_add, c9) = FHE_add (opponentBalance game) creatorStake' c8;
          (ob_sub, c10) = FHE_sub (opponentBalance game) opponentStake' c9;
          (ob_in, c11) = FHE_select creatorWins ob_sub (opponentBalance game) c10;
          (ob_new, c12) = FHE_select opponentWins ob_add ob_in c11;
          game = game\<lparr>opponentBalance := ob_new\<rparr>;
          (one_c, c13) = FHE_asEuint32 1 c12;
          (cs_add, c14) = FHE_add (creatorScore game) one_c c13;
          (cs_new, c15) = FHE_select creatorWins cs_add (creatorScore game) c14;
          game = game\<lparr>creatorScore := cs_new\<rparr>;
          (one_o, c16) = FHE_asEuint32 1 c15;
          (os_add, c17) = FHE_add (opponentScore game) one_o c16;
          (os_new, c18) = FHE_select opponentWins os_add (opponentScore game) c17;
          game = game\<lparr>opponentScore := os_new\<rparr>;
          c19 = shareWithContract (creatorBalance game) c18;
          c20 = shareWithContract (opponentBalance game) c19;
          c21 = shareWithContract (creatorScore game) c20;
          c22 = shareWithContract (opponentScore game) c21;
          c23 = allowTo (creatorBalance game) (creator game) c22;
          c24 = allowTo (opponentBalance game) (opponent game) c23;
          c25 = allowTo (creatorScore game) (creator game) c24;
          c26 = allowTo (creatorScore game) (opponent game) c25;
          c27 = allowTo (opponentScore game) (creator game) c26;
          c28 = allowTo (opponentScore game) (opponent game) c27;
          (cst, c29) = FHE_asEuint32 0 c28;
          (ost, c30) = FHE_asEuint32 0 c29;
          game = game\<lparr>creatorStake := cst, opponentStake := ost,
            creatorSubmitted := False, opponentSubmitted := False\<rparr>
      in if round game = - 1 then Inl ArithmeticOverflow
         else
           let game = game\<lparr>round := round game + 1\<rparr> in
           Inr (s\<lparr>games := (games s)(gameId := game), fhe := c30,
                  events := events s @
                    [RoundResolved gameId resolvedRound (creatorBalance game)
                       (opponentBalance game) (creatorScore game) (opponentScore game)]\<rparr>))"

definition submitStake ::
  "address \<Rightarrow> nat \<Rightarrow> externalEuint32 \<Rightarrow> inputProof \<Rightarrow> contract \<Rightarrow> error + contract" where
  "submitStake sender gameId stakeHandle inputProof s =
     (let game = games s gameId in
      if creator game = 0 then Inl NotFound
      else if \<not> (sender = creator game \<or> sender = opponent game) then Inl NotParticipant
      else if \<not> started game then Inl NotStarted
      else
        case FHE_fromExternal stakeHandle inputProof (fhe s) of
          Inl e \<Rightarrow> Inl e
        | Inr (encryptedStake, c1) \<Rightarrow>
            let c2 = shareWithContract encryptedStake c1;
                c3 = allowTo encryptedStake sender c2
            in case (if sender = creator game
                     then (if creatorSubmitted game then Inl DuplicateSubmission
                           else Inr (game\<lparr>creatorStake := encryptedStake,
                                            creatorSubmitted := True\<rparr>))
                     else (if opponentSubmitted game then Inl DuplicateSubmission
                           else Inr (game\<lparr>opponentStake := encryptedStake,
                                            opponentSubmitted := True\<rparr>))) of
                 Inl e \<Rightarrow> Inl e
               | Inr game \<Rightarrow>
                   let s1 = s\<lparr>games := (games s)(gameId := game), fhe := c3,
                              events := events s @
                                [StakeSubmitted gameId sender encryptedStake]\<rparr>
                   in if creatorSubmitted game \<and> opponentSubmitted game
                      then resolveRound gameId s1
                      else Inr s1)"

definition getGameState :: "nat \<Rightarrow> contract \<Rightarrow> error + GameState" where
  "getGameState gameId s =
     (let game = games s gameId in
      if creator game = 0 then Inl NotFound
      else Inr \<lparr>gs_creator = creator game, gs_opponent = opponent game,
                gs_started = started game, gs_round = round game,
                gs_creatorSubmitted = creatorSubmitted game,
                gs_opponentSubmitted = opponentSubmitted game,
                gs_creatorBalance = creatorBalance game,
                gs_opponentBalance = opponentBalance game,
                gs_creatorScore = creatorScore game,
                gs_opponentScore = opponentScore game\<rparr>)"

text \<open>The two loops of \<open>getOpenGames\<close>: the first counts, the second fills the array.\<close>

function countOpen :: "contract \<Rightarrow> nat \<Rightarrow> nat \<Rightarrow> nat \<Rightarrow> nat" where
  "countOpen s total' i count =
     (if i < total' then
        (let game = games s i in
         if creator game \<noteq> 0 \<and> opponent game = 0
         then countOpen s total' (i + 1) (count + 1)
         else countOpen s total' (i + 1) count)
      else count)"
  by pat_completeness auto
termination
  by (relation "measure (\<lambda>(s, total', i, count). total' - i)") auto

function fillOpen :: "contract \<Rightarrow> nat \<Rightarrow> nat \<Rightarrow> nat \<Rightarrow> nat list \<Rightarrow> error + nat list" where
  "fillOpen s total' i index openGames =
     (if i < total' then
        (let game = games s i in
         if creator game \<noteq> 0 \<and> opponent game = 0
         then (if index < length openGames
               then fillOpen s total' (i + 1) (index + 1) (openGames[index := i])
               else Inl IndexOutOfBounds)
         else fillOpen s total' (i + 1) index openGames)
      else Inr openGames)"
  by pat_completeness auto
termination
  by (relation "measure (\<lambda>(s, total', i, index, openGames). total' - i)") auto

definition getOpenGames :: "contract \<Rightarrow> error + nat list" where
  "getOpenGames s =
     (let total' = nextGameId s;
          count = countOpen s total' 0 0
      in fillOpen s total' 0 0 (replicate count 0))"

definition getPlayerGames :: "address \<Rightarrow> contract \<Rightarrow> nat list" where
  "getPlayerGames player s = gamesByPlayer s player"

section \<open>Transactions\<close>

text \<open>
  A transaction is a sender and an external call. A call that reverts leaves the whole
  state as it was. The sender of a transaction is never the zero address.
\<close>

datatype call =
    CreateGame
  | JoinGame nat
  | StartGame nat
  | SubmitStake nat externalEuint32 inputProof

fun exec :: "address \<Rightarrow> call \<Rightarrow> contract \<Rightarrow> error + contract" where
  "exec sender CreateGame s =
     (case createGame sender s of Inl e \<Rightarrow> Inl e | Inr (gameId, s') \<Rightarrow> Inr s')"
| "exec sender (JoinGame gameId) s = joinGame sender gameId s"
| "exec sender (StartGame gameId) s = startGame sender gameId s"
| "exec sender (SubmitStake gameId stakeHandle inputProof) s =
     submitStake sender gameId stakeHandle inputProof s"

definition transact :: "address \<times> call \<Rightarrow> contract \<Rightarrow> contract" where
  "transact tx s = (case exec (fst tx) (snd tx) s of Inl e \<Rightarrow> s | Inr s' \<Rightarrow> s')"

fun run :: "contract \<Rightarrow> (address \<times> call) list \<Rightarrow> contract" where
  "run s [] = s"
| "run s (tx # txs) = run (transact tx s) txs"

definition valid_tx :: "address \<times> call \<Rightarrow> bool" where
  "valid_tx tx = (fst tx \<noteq> 0)"

section \<open>Closed forms and invariants used in the proofs\<close>

text \<open>
  The state each successful call leaves behind, written without the threading of the
  co-processor. The lemmas \<open>createGame_eq\<close>, \<open>joinGame_eq\<close>, \<open>startGame_eq\<close>,
  \<open>submitStake_eq\<close> and \<open>resolveRound_eq\<close> below prove that the functions of the
  contract compute exactly these states.
\<close>

definition created :: "address \<Rightarrow> contract \<Rightarrow> contract" where
  "created a s =
     s\<lparr>nextGameId := nextGameId s + 1,
       games := (games s)(nextGameId s := (games s (nextGameId s))\<lparr>creator := a, round := 1\<rparr>),
       gamesByPlayer := (gamesByPlayer s)(a := gamesByPlayer s a @ [nextGameId s]),
       events := events s @ [GameCreated (nextGameId s) a]\<rparr>"

definition joined :: "address \<Rightarrow> nat \<Rightarrow> contract \<Rightarrow> contract" where
  "joined a gid s =
     s\<lparr>games := (games s)(gid := (games s gid)\<lparr>opponent := a\<rparr>),
       gamesByPlayer := (gamesByPlayer s)(a := gamesByPlayer s a @ [gid]),
       events := events s @ [GameJoined gid a]\<rparr>"

definition begun :: "nat \<Rightarrow> contract \<Rightarrow> contract" where
  "begun gid s =
     (let g = games s gid;
          cb = Euint32 (Trivial 100) 100; ob = Euint32 (Trivial 100) 100;
          cs = Euint32 (Trivial 0) 0; os = Euint32 (Trivial 0) 0
      in s\<lparr>games := (games s)(gid := g\<lparr>started := True,
              creatorBalance := cb, opponentBalance := ob,
              creatorScore := cs, opponentScore := os,
              creatorStake := Euint32 (Trivial 0) 0, opponentStake := Euint32 (Trivial 0) 0,
              creatorSubmitted := False, opponentSubmitted := False\<rparr>),
            fhe :=
              allowTo os (opponent g) (allowTo os (creator g)
              (allowTo cs (opponent g) (allowTo cs (creator g)
              (allowTo ob (opponent g) (allowTo cb (creator g)
              (shareWithContract os (shareWithContract cs
              (shareWithContract ob (shareWithContract cb (fhe s)))))))))),
            events := events s @ [GameStarted gid]\<rparr>)"

definition stake_stored :: "address \<Rightarrow> nat \<Rightarrow> externalEuint32 \<Rightarrow> contract \<Rightarrow> contract" where
  "stake_stored a gid x s =
     (let g = games s gid; e = Euint32 (Issued (counter (fhe s))) (ext_plain x)
      in s\<lparr>games := (games s)(gid :=
              (if a = creator g then g\<lparr>creatorStake := e, creatorSubmitted := True\<rparr>
               else g\<lparr>opponentStake := e, opponentSubmitted := True\<rparr>)),
            fhe := allowTo e a (shareWithContract e (fresh (fhe s))),
            events := events s @ [StakeSubmitted gid a e]\<rparr>)"

definition settled :: "nat \<Rightarrow> contract \<Rightarrow> contract" where
  "settled gid s =
     (let g = games s gid; n = counter (fhe s);
          ce = min (plain (creatorStake g)) (plain (creatorBalance g));
          oe = min (plain (opponentStake g)) (plain (opponentBalance g));
          cb = Euint32 (Issued (n + 7))
                 (if oe < ce then plain (creatorBalance g) + oe
                  else if ce < oe then plain (creatorBalance g) - ce
                  else plain (creatorBalance g));
          ob = Euint32 (Issued (n + 11))
                 (if ce < oe then plain (opponentBalance g) + ce
                  else if oe < ce then plain (opponentBalance g) - oe
                  else plain (opponentBalance g));
          cs = Euint32 (Issued (n + 13))
                 (if oe < ce then plain (creatorScore g) + 1 else plain (creatorScore g));
          os = Euint32 (Issued (n + 15))
                 (if ce < oe then plain (opponentScore g) + 1 else plain (opponentScore g))
      in s\<lparr>games := (games s)(gid := g\<lparr>creatorBalance := cb, opponentBalance := ob,
              creatorScore := cs, opponentScore := os,
              creatorStake := Euint32 (Trivial 0) 0, opponentStake := Euint32 (Trivial 0) 0,
              creatorSubmitted := False, opponentSubmitted := False,
              round := round g + 1\<rparr>),
            fhe :=
              allowTo os (opponent g) (allowTo os (creator g)
              (allowTo cs (opponent g) (allowTo cs (creator g)
              (allowTo ob (opponent g) (allowTo cb (creator g)
              (shareWithContract os (shareWithContract cs
              (shareWithContract ob (shareWithContract cb
                ((fresh ^^ 16) (fhe s))))))))))),
            events := events s @ [RoundResolved gid (round g) cb ob cs os]\<rparr>)"

text \<open>The invariants of the reachable states.\<close>

definition registry_inv :: "contract \<Rightarrow> bool" where
  "registry_inv s \<longleftrightarrow>
     (\<forall>i. nextGameId s \<le> i \<longrightarrow> games s i = zero_Game) \<and>
     (\<forall>i. i < nextGameId s \<longrightarrow>
        creator (games s i) \<noteq> 0 \<and> opponent (games s i) \<noteq> creator (games s i)) \<and>
     (\<forall>i. started (games s i) \<longrightarrow> opponent (games s i) \<noteq> 0) \<and>
     (\<forall>p. distinct (gamesByPlayer s p)) \<and>
     (\<forall>p i. i \<in> set (gamesByPlayer s p) \<longrightarrow>
        i < nextGameId s \<and> p \<noteq> 0 \<and>
        (p = creator (games s i) \<or> p = opponent (games s i)))"

definition balance_inv :: "contract \<Rightarrow> bool" where
  "balance_inv s \<longleftrightarrow>
     (\<forall>i. started (games s i) \<longrightarrow>
        uint (plain (creatorBalance (games s i))) +
        uint (plain (opponentBalance (games s i))) = 200)"

definition score_inv :: "contract \<Rightarrow> bool" where
  "score_inv s \<longleftrightarrow>
     (\<forall>i. i < nextGameId s \<longrightarrow>
        uint (plain (creatorScore (games s i))) +
        uint (plain (opponentScore (games s i))) < uint (round (games s i)))"

definition granted :: "coproc \<Rightarrow> euint32 \<Rightarrow> grantee \<Rightarrow> bool" where
  "granted c v p = ((handle v, p) \<in> acl c)"

text \<open>
  The grants a started game holds on its stored ciphertexts: the contract and the owner
  on each balance, the contract and both players on each score, the contract and the
  side on the stake of each side. A stake that is not submitted is the encryption of 0
  that \<open>startGame\<close> and the settlement write, and the game keeps the grants on that
  encryption from its start.
\<close>

definition game_grants :: "coproc \<Rightarrow> Game \<Rightarrow> bool" where
  "game_grants c g \<longleftrightarrow>
     (started g \<longrightarrow>
        granted c (creatorBalance g) ThisContract \<and>
        granted c (creatorBalance g) (Account (creator g)) \<and>
        granted c (opponentBalance g) ThisContract \<and>
        granted c (opponentBalance g) (Account (opponent g)) \<and>
        granted c (creatorScore g) ThisContract \<and>
        granted c (creatorScore g) (Account (creator g)) \<and>
        granted c (creatorScore g) (Account (opponent g)) \<and>
        granted c (opponentScore g) ThisContract \<and>
        granted c (opponentScore g) (Account (creator g)) \<and>
        granted c (opponentScore g) (Account (opponent g)) \<and>
        granted c (creatorStake g) ThisContract \<and>
        granted c (creatorStake g) (Account (creator g)) \<and>
        granted c (opponentStake g) ThisContract \<and>
        granted c (opponentStake g) (Account (opponent g)) \<and>
        granted c (fst (FHE_asEuint32 0 c)) ThisContract \<and>
        granted c (fst (FHE_asEuint32 0 c)) (Account (creator g)) \<and>
        granted c (fst (FHE_asEuint32 0 c)) (Account (opponent g)) \<and>
        (\<not> creatorSubmitted g \<longrightarrow> creatorStake g = fst (FHE_asEuint32 0 c)) \<and>
        (\<not> opponentSubmitted g \<longrightarrow> opponentStake g = fst (FHE_asEuint32 0 c)))"

definition acl_inv :: "contract \<Rightarrow> bool" where
  "acl_inv s \<longleftrightarrow> (\<forall>i. game_grants (fhe s) (games s i))"

definition contract_inv :: "contract \<Rightarrow> bool" where
  "contract_inv s \<longleftrightarrow> registry_inv s \<and> balance_inv s \<and> score_inv s \<and> acl_inv s"

text \<open>
  The stakes of the round that a call \<open>submitStake a gid x\<close> completes, as the
  settlement reads them: the stake each side has submitted (the caller's is \<open>x\<close>, the
  other side's is already stored), and the effective stake, which is the submitted stake
  clamped to the balance of the side.
\<close>

definition submittedCreatorStake ::
  "address \<Rightarrow> nat \<Rightarrow> externalEuint32 \<Rightarrow> contract \<Rightarrow> uint32" where
  "submittedCreatorStake a gid x s =
     (if a = creator (games s gid) then ext_plain x else plain (creatorStake (games s gid)))"

definition submittedOpponentStake ::
  "address \<Rightarrow> nat \<Rightarrow> externalEuint32 \<Rightarrow> contract \<Rightarrow> uint32" where
  "submittedOpponentStake a gid x s =
     (if a = creator (games s gid) then plain (opponentStake (games s gid)) else ext_plain x)"

definition effectiveCreatorStake ::
  "address \<Rightarrow> nat \<Rightarrow> externalEuint32 \<Rightarrow> contract \<Rightarrow> uint32" where
  "effectiveCreatorStake a gid x s =
     min (submittedCreatorStake a gid x s) (plain (creatorBalance (games s gid)))"

definition effectiveOpponentStake ::
  "address \<Rightarrow> nat \<Rightarrow> externalEuint32 \<Rightarrow> contract \<Rightarrow> uint32" where
  "effectiveOpponentStake a gid x s =
     min (submittedOpponentStake a gid x s) (plain (opponentBalance (games s gid)))"

text \<open>The duel of the repository's test: alice creates, bob joins, stakes 25 against 10.\<close>

definition alice :: address where
  "alice = 1"

definition bob :: address where
  "bob = 2"

definition duel_setup :: "(address \<times> call) list" where
  "duel_setup = [(alice, CreateGame), (bob, JoinGame 0), (alice, StartGame 0)]"

definition duel_round :: "(address \<times> call) list" where
  "duel_round = duel_setup @
     [(alice, SubmitStake 0 (ExternalEuint32 25) True),
      (bob, SubmitStake 0 (ExternalEuint32 10) True)]"

definition duel_joined :: "(address \<times> call) list" where
  "duel_joined = [(alice, CreateGame), (bob, JoinGame 0)]"

definition duel_first_stake :: "(address \<times> call) list" where
  "duel_first_stake = duel_setup @ [(alice, SubmitStake 0 (ExternalEuint32 25) True)]"

definition duel_tie :: "(address \<times> call) list" where
  "duel_tie = duel_setup @ [(bob, SubmitStake 0 (ExternalEuint32 15) True)]"

section \<open>The co-processor and the closed forms\<close>

lemma counter_fresh [simp]: "counter (fresh c) = Suc (counter c)"
  by (simp add: fresh_def)

lemma acl_fresh [simp]: "acl (fresh c) = acl c"
  by (simp add: fresh_def)

lemma counter_shareWithContract [simp]: "counter (shareWithContract v c) = counter c"
  by (simp add: shareWithContract_def FHE_allowThis_def)

lemma acl_shareWithContract [simp]:
  "acl (shareWithContract v c) = insert (handle v, ThisContract) (acl c)"
  by (simp add: shareWithContract_def FHE_allowThis_def)

lemma counter_allowTo [simp]: "counter (allowTo v a c) = counter c"
  by (simp add: allowTo_def FHE_allow_def)

lemma acl_allowTo [simp]:
  "acl (allowTo v a c) = acl c \<union> (if a = 0 then {} else {(handle v, Account a)})"
  by (simp add: allowTo_def FHE_allow_def)

lemmas fhe_defs =
  FHE_asEuint32_def FHE_add_def FHE_sub_def FHE_min_def FHE_gt_def FHE_select_def

lemma createGame_eq:
  "createGame a s =
     (if nextGameId s = 2 ^ 256 - 1 then Inl ArithmeticOverflow
      else Inr (nextGameId s, created a s))"
  by (simp add: createGame_def created_def Let_def)

lemma joinGame_eq:
  "joinGame a gid s =
     (if creator (games s gid) = 0 then Inl NotFound
      else if opponent (games s gid) \<noteq> 0 then Inl AlreadyFull
      else if creator (games s gid) = a then Inl SelfJoin
      else Inr (joined a gid s))"
  by (simp add: joinGame_def joined_def Let_def)

lemma startGame_eq:
  "startGame a gid s =
     (if creator (games s gid) = 0 then Inl NotFound
      else if \<not> (a = creator (games s gid) \<or> a = opponent (games s gid))
        then Inl NotParticipant
      else if started (games s gid) then Inl AlreadyStarted
      else if opponent (games s gid) = 0 then Inl NoOpponent
      else Inr (begun gid s))"
  by (simp add: startGame_def begun_def fhe_defs Let_def eval_nat_numeral
        split del: if_split cong: if_cong)

lemma resolveRound_eq:
  "resolveRound gid s =
     (if round (games s gid) = - 1 then Inl ArithmeticOverflow else Inr (settled gid s))"
  by (simp add: resolveRound_def settled_def fhe_defs Let_def eval_nat_numeral
        split del: if_split cong: if_cong)

lemma submitStake_eq:
  "submitStake a gid x p s =
     (if creator (games s gid) = 0 then Inl NotFound
      else if \<not> (a = creator (games s gid) \<or> a = opponent (games s gid))
        then Inl NotParticipant
      else if \<not> started (games s gid) then Inl NotStarted
      else if \<not> p then Inl InvalidProof
      else if a = creator (games s gid) \<and> creatorSubmitted (games s gid)
        then Inl DuplicateSubmission
      else if a \<noteq> creator (games s gid) \<and> opponentSubmitted (games s gid)
        then Inl DuplicateSubmission
      else if (if a = creator (games s gid) then opponentSubmitted (games s gid)
               else creatorSubmitted (games s gid))
        then resolveRound gid (stake_stored a gid x s)
      else Inr (stake_stored a gid x s))"
  by (simp add: submitStake_def stake_stored_def FHE_fromExternal_def Let_def)

lemma created_simps [simp]:
  "nextGameId (created a s) = Suc (nextGameId s)"
  "games (created a s) =
     (games s)(nextGameId s := (games s (nextGameId s))\<lparr>creator := a, round := 1\<rparr>)"
  "gamesByPlayer (created a s) = (gamesByPlayer s)(a := gamesByPlayer s a @ [nextGameId s])"
  "fhe (created a s) = fhe s"
  by (simp_all add: created_def)

lemma joined_simps [simp]:
  "nextGameId (joined a gid s) = nextGameId s"
  "games (joined a gid s) = (games s)(gid := (games s gid)\<lparr>opponent := a\<rparr>)"
  "gamesByPlayer (joined a gid s) = (gamesByPlayer s)(a := gamesByPlayer s a @ [gid])"
  "fhe (joined a gid s) = fhe s"
  by (simp_all add: joined_def)

lemma begun_simps [simp]:
  "nextGameId (begun gid s) = nextGameId s"
  "gamesByPlayer (begun gid s) = gamesByPlayer s"
  "games (begun gid s) = (games s)(gid := (games s gid)\<lparr>started := True,
      creatorBalance := Euint32 (Trivial 100) 100,
      opponentBalance := Euint32 (Trivial 100) 100,
      creatorScore := Euint32 (Trivial 0) 0,
      opponentScore := Euint32 (Trivial 0) 0,
      creatorStake := Euint32 (Trivial 0) 0,
      opponentStake := Euint32 (Trivial 0) 0,
      creatorSubmitted := False, opponentSubmitted := False\<rparr>)"
  "counter (fhe (begun gid s)) = counter (fhe s)"
  by (simp_all add: begun_def Let_def)

lemma acl_begun:
  "acl (fhe (begun gid s)) = acl (fhe s) \<union>
     {(Trivial 100, ThisContract), (Trivial 0, ThisContract)} \<union>
     (if creator (games s gid) = 0 then {} else
        {(Trivial 100, Account (creator (games s gid))),
         (Trivial 0, Account (creator (games s gid)))}) \<union>
     (if opponent (games s gid) = 0 then {} else
        {(Trivial 100, Account (opponent (games s gid))),
         (Trivial 0, Account (opponent (games s gid)))})"
  by (auto simp add: begun_def Let_def)

lemma stake_stored_simps [simp]:
  "nextGameId (stake_stored a gid x s) = nextGameId s"
  "gamesByPlayer (stake_stored a gid x s) = gamesByPlayer s"
  "games (stake_stored a gid x s) = (games s)(gid :=
     (if a = creator (games s gid)
      then (games s gid)\<lparr>creatorStake := Euint32 (Issued (counter (fhe s))) (ext_plain x),
                          creatorSubmitted := True\<rparr>
      else (games s gid)\<lparr>opponentStake := Euint32 (Issued (counter (fhe s))) (ext_plain x),
                          opponentSubmitted := True\<rparr>))"
  "counter (fhe (stake_stored a gid x s)) = counter (fhe s) + 1"
  "acl (fhe (stake_stored a gid x s)) =
     insert (Issued (counter (fhe s)), ThisContract) (acl (fhe s)) \<union>
     (if a = 0 then {} else {(Issued (counter (fhe s)), Account a)})"
  by (simp_all add: stake_stored_def Let_def)

lemma settled_simps [simp]:
  "nextGameId (settled gid s) = nextGameId s"
  "gamesByPlayer (settled gid s) = gamesByPlayer s"
  "counter (fhe (settled gid s)) = counter (fhe s) + 16"
  by (simp_all add: settled_def Let_def eval_nat_numeral)

lemma games_settled:
  "games (settled gid s) = (games s)(gid := (games s gid)\<lparr>
      creatorBalance := Euint32 (Issued (counter (fhe s) + 7))
        (let g = games s gid;
             ce = min (plain (creatorStake g)) (plain (creatorBalance g));
             oe = min (plain (opponentStake g)) (plain (opponentBalance g))
         in if oe < ce then plain (creatorBalance g) + oe
            else if ce < oe then plain (creatorBalance g) - ce
            else plain (creatorBalance g)),
      opponentBalance := Euint32 (Issued (counter (fhe s) + 11))
        (let g = games s gid;
             ce = min (plain (creatorStake g)) (plain (creatorBalance g));
             oe = min (plain (opponentStake g)) (plain (opponentBalance g))
         in if ce < oe then plain (opponentBalance g) + ce
            else if oe < ce then plain (opponentBalance g) - oe
            else plain (opponentBalance g)),
      creatorScore := Euint32 (Issued (counter (fhe s) + 13))
        (let g = games s gid;
             ce = min (plain (creatorStake g)) (plain (creatorBalance g));
             oe = min (plain (opponentStake g)) (plain (opponentBalance g))
         in if oe < ce then plain (creatorScore g) + 1 else plain (creatorScore g)),
      opponentScore := Euint32 (Issued (counter (fhe s) + 15))
        (let g = games s gid;
             ce = min (plain (creatorStake g)) (plain (creatorBalance g));
             oe = min (plain (opponentStake g)) (plain (opponentBalance g))
         in if ce < oe then plain (opponentScore g) + 1 else plain (opponentScore g)),
      creatorStake := Euint32 (Trivial 0) 0,
      opponentStake := Euint32 (Trivial 0) 0,
      creatorSubmitted := False, opponentSubmitted := False,
      round := round (games s gid) + 1\<rparr>)"
  by (simp add: settled_def Let_def split del: if_split cong: if_cong)

lemma acl_settled:
  "acl (fhe (settled gid s)) = acl (fhe s) \<union>
     {(Issued (counter (fhe s) + 7), ThisContract), (Issued (counter (fhe s) + 11), ThisContract),
      (Issued (counter (fhe s) + 13), ThisContract), (Issued (counter (fhe s) + 15), ThisContract)} \<union>
     (if creator (games s gid) = 0 then {} else
        {(Issued (counter (fhe s) + 7), Account (creator (games s gid))),
         (Issued (counter (fhe s) + 13), Account (creator (games s gid))),
         (Issued (counter (fhe s) + 15), Account (creator (games s gid)))}) \<union>
     (if opponent (games s gid) = 0 then {} else
        {(Issued (counter (fhe s) + 11), Account (opponent (games s gid))),
         (Issued (counter (fhe s) + 13), Account (opponent (games s gid))),
         (Issued (counter (fhe s) + 15), Account (opponent (games s gid)))})"
  by (auto simp add: settled_def Let_def eval_nat_numeral)

section \<open>Transactions, case by case\<close>

lemma exec_cases [consumes 1, case_names create join start stake settle]:
  assumes "exec a c s = Inr s'"
  obtains
    "c = CreateGame" "nextGameId s \<noteq> 2 ^ 256 - 1" "s' = created a s"
  | gid where "c = JoinGame gid" "creator (games s gid) \<noteq> 0" "opponent (games s gid) = 0"
      "creator (games s gid) \<noteq> a" "s' = joined a gid s"
  | gid where "c = StartGame gid" "creator (games s gid) \<noteq> 0" "opponent (games s gid) \<noteq> 0"
      "\<not> started (games s gid)" "a = creator (games s gid) \<or> a = opponent (games s gid)"
      "s' = begun gid s"
  | gid x where "c = SubmitStake gid x True" "creator (games s gid) \<noteq> 0"
      "a = creator (games s gid) \<or> a = opponent (games s gid)" "started (games s gid)"
      "s' = stake_stored a gid x s"
  | gid x where "c = SubmitStake gid x True" "creator (games s gid) \<noteq> 0"
      "a = creator (games s gid) \<or> a = opponent (games s gid)" "started (games s gid)"
      "round (games s gid) \<noteq> - 1" "s' = settled gid (stake_stored a gid x s)"
proof (cases c)
  case CreateGame
  with assms that(1) show ?thesis
    by (auto simp add: createGame_eq split: if_splits)
next
  case (JoinGame gid)
  with assms that(2) show ?thesis
    by (auto simp add: joinGame_eq split: if_splits)
next
  case (StartGame gid)
  with assms that(3) show ?thesis
    by (auto simp add: startGame_eq split: if_splits)
next
  case (SubmitStake gid x p)
  with assms have *: "submitStake a gid x p s = Inr s'" by simp
  then have p: "p" and c: "creator (games s gid) \<noteq> 0"
    and part: "a = creator (games s gid) \<or> a = opponent (games s gid)"
    and st: "started (games s gid)"
    by (auto simp add: submitStake_eq split: if_splits)
  from * p c part st have
    "s' = stake_stored a gid x s \<or>
     (round (games s gid) \<noteq> - 1 \<and> s' = settled gid (stake_stored a gid x s))"
    by (auto simp add: submitStake_eq resolveRound_eq split: if_splits)
  with SubmitStake p c part st that(4,5) show ?thesis by blast
qed

lemma transact_cases:
  "transact tx s = s \<or> exec (fst tx) (snd tx) s = Inr (transact tx s)"
  by (simp add: transact_def split: sum.splits)

lemma run_invariant:
  assumes "P s" and "list_all valid_tx txs"
    and step: "\<And>s a c s'. P s \<Longrightarrow> a \<noteq> 0 \<Longrightarrow> exec a c s = Inr s' \<Longrightarrow> P s'"
  shows "P (run s txs)"
  using assms(1,2)
proof (induction txs arbitrary: s)
  case Nil
  then show ?case by simp
next
  case (Cons tx txs)
  from Cons.prems have v: "fst tx \<noteq> 0"
    by (simp add: valid_tx_def)
  from Cons.prems have r: "list_all valid_tx txs"
    by simp
  have "P (transact tx s)"
    using transact_cases [of tx s] Cons.prems(1) v step by metis
  with Cons.IH r show ?case by simp
qed

lemma run_append: "run s (xs @ ys) = run (run s xs) ys"
  by (induction xs arbitrary: s) simp_all

section \<open>The registry invariant\<close>

lemma registry_invI:
  assumes "\<And>i. nextGameId s \<le> i \<Longrightarrow> games s i = zero_Game"
    and "\<And>i. i < nextGameId s \<Longrightarrow> creator (games s i) \<noteq> 0"
    and "\<And>i. i < nextGameId s \<Longrightarrow> opponent (games s i) \<noteq> creator (games s i)"
    and "\<And>i. started (games s i) \<Longrightarrow> opponent (games s i) \<noteq> 0"
    and "\<And>p. distinct (gamesByPlayer s p)"
    and "\<And>p i. i \<in> set (gamesByPlayer s p) \<Longrightarrow> i < nextGameId s"
    and "\<And>p i. i \<in> set (gamesByPlayer s p) \<Longrightarrow> p \<noteq> 0"
    and "\<And>p i. i \<in> set (gamesByPlayer s p) \<Longrightarrow>
           p = creator (games s i) \<or> p = opponent (games s i)"
  shows "registry_inv s"
  unfolding registry_inv_def using assms by blast

lemma registry_inv_unallocated:
  "registry_inv s \<Longrightarrow> nextGameId s \<le> i \<Longrightarrow> games s i = zero_Game"
  by (simp add: registry_inv_def)

lemma registry_inv_creator:
  "registry_inv s \<Longrightarrow> i < nextGameId s \<Longrightarrow> creator (games s i) \<noteq> 0"
  by (simp add: registry_inv_def)

lemma registry_inv_opponent:
  "registry_inv s \<Longrightarrow> i < nextGameId s \<Longrightarrow> opponent (games s i) \<noteq> creator (games s i)"
  by (simp add: registry_inv_def)

lemma registry_inv_started:
  "registry_inv s \<Longrightarrow> started (games s i) \<Longrightarrow> opponent (games s i) \<noteq> 0"
  by (simp add: registry_inv_def)

lemma registry_inv_distinct: "registry_inv s \<Longrightarrow> distinct (gamesByPlayer s p)"
  by (simp add: registry_inv_def)

lemma registry_inv_listed:
  "registry_inv s \<Longrightarrow> i \<in> set (gamesByPlayer s p) \<Longrightarrow> i < nextGameId s"
  by (simp add: registry_inv_def)

lemma registry_inv_nonzero:
  "registry_inv s \<Longrightarrow> i \<in> set (gamesByPlayer s p) \<Longrightarrow> p \<noteq> 0"
  by (simp add: registry_inv_def)

lemma registry_inv_member:
  "registry_inv s \<Longrightarrow> i \<in> set (gamesByPlayer s p) \<Longrightarrow>
     p = creator (games s i) \<or> p = opponent (games s i)"
  by (simp add: registry_inv_def)

lemma registry_inv_allocated:
  assumes "registry_inv s"
  shows "creator (games s i) \<noteq> 0 \<longleftrightarrow> i < nextGameId s"
proof
  assume c: "creator (games s i) \<noteq> 0"
  show "i < nextGameId s"
  proof (rule ccontr)
    assume "\<not> i < nextGameId s"
    then have "games s i = zero_Game"
      using assms by (simp add: registry_inv_unallocated)
    with c show False by (simp add: zero_Game_def)
  qed
next
  assume "i < nextGameId s"
  with assms show "creator (games s i) \<noteq> 0" by (rule registry_inv_creator)
qed

lemma registry_inv_deployed: "registry_inv deployed"
  by (simp add: registry_inv_def deployed_def zero_Game_def)

lemma registry_inv_created:
  assumes inv: "registry_inv s" and a: "a \<noteq> 0"
  shows "registry_inv (created a s)"
proof (rule registry_invI)
  fix i assume "nextGameId (created a s) \<le> i"
  then show "games (created a s) i = zero_Game"
    using inv by (simp add: registry_inv_unallocated)
next
  fix i assume "i < nextGameId (created a s)"
  then show "creator (games (created a s) i) \<noteq> 0"
    using inv a by (auto simp add: registry_inv_creator less_Suc_eq)
next
  fix i assume i: "i < nextGameId (created a s)"
  have "opponent (games s (nextGameId s)) = 0"
    using inv by (simp add: registry_inv_unallocated zero_Game_def)
  with i show "opponent (games (created a s) i) \<noteq> creator (games (created a s) i)"
    using inv a by (auto simp add: registry_inv_opponent less_Suc_eq)
next
  fix i assume st: "started (games (created a s) i)"
  have "\<not> started (games s (nextGameId s))"
    using inv by (simp add: registry_inv_unallocated zero_Game_def)
  with st show "opponent (games (created a s) i) \<noteq> 0"
    using inv by (auto simp add: registry_inv_started split: if_splits)
next
  fix p
  have "nextGameId s \<notin> set (gamesByPlayer s a)"
    using registry_inv_listed [OF inv] by blast
  then show "distinct (gamesByPlayer (created a s) p)"
    using inv by (simp add: registry_inv_distinct)
next
  fix p i assume "i \<in> set (gamesByPlayer (created a s) p)"
  then show "i < nextGameId (created a s)"
    using registry_inv_listed [OF inv] by (auto simp add: less_Suc_eq split: if_splits)
next
  fix p i assume "i \<in> set (gamesByPlayer (created a s) p)"
  then show "p \<noteq> 0"
    using registry_inv_nonzero [OF inv] a by (auto split: if_splits)
next
  fix p i assume i: "i \<in> set (gamesByPlayer (created a s) p)"
  have "\<And>q. nextGameId s \<notin> set (gamesByPlayer s q)"
    using registry_inv_listed [OF inv] by blast
  with i show "p = creator (games (created a s) i) \<or> p = opponent (games (created a s) i)"
    using registry_inv_member [OF inv] by (auto split: if_splits)
qed

lemma registry_inv_joined:
  assumes inv: "registry_inv s" and a: "a \<noteq> 0"
    and c: "creator (games s gid) \<noteq> 0" and o: "opponent (games s gid) = 0"
    and ne: "creator (games s gid) \<noteq> a"
  shows "registry_inv (joined a gid s)"
proof (rule registry_invI)
  have lt: "gid < nextGameId s"
    using c registry_inv_allocated [OF inv] by blast
  have notin: "gid \<notin> set (gamesByPlayer s a)"
    using registry_inv_member [OF inv, of gid a] a o ne by auto
  {
    fix i assume "nextGameId (joined a gid s) \<le> i"
    then show "games (joined a gid s) i = zero_Game"
      using inv lt by (simp add: registry_inv_unallocated)
  next
    fix i assume "i < nextGameId (joined a gid s)"
    then show "creator (games (joined a gid s) i) \<noteq> 0"
      using inv by (simp add: registry_inv_creator)
  next
    fix i assume "i < nextGameId (joined a gid s)"
    then show "opponent (games (joined a gid s) i) \<noteq> creator (games (joined a gid s) i)"
      using inv ne by (auto simp add: registry_inv_opponent)
  next
    fix i assume "started (games (joined a gid s) i)"
    then show "opponent (games (joined a gid s) i) \<noteq> 0"
      using inv a by (auto simp add: registry_inv_started split: if_splits)
  next
    fix p show "distinct (gamesByPlayer (joined a gid s) p)"
      using inv notin by (simp add: registry_inv_distinct)
  next
    fix p i assume "i \<in> set (gamesByPlayer (joined a gid s) p)"
    then show "i < nextGameId (joined a gid s)"
      using registry_inv_listed [OF inv] lt by (auto split: if_splits)
  next
    fix p i assume "i \<in> set (gamesByPlayer (joined a gid s) p)"
    then show "p \<noteq> 0"
      using registry_inv_nonzero [OF inv] a by (auto split: if_splits)
  next
    fix p i assume "i \<in> set (gamesByPlayer (joined a gid s) p)"
    then show "p = creator (games (joined a gid s) i) \<or> p = opponent (games (joined a gid s) i)"
      using registry_inv_member [OF inv] registry_inv_nonzero [OF inv] o
      by (auto split: if_splits)
  }
qed

lemma registry_inv_same:
  assumes inv: "registry_inv s"
    and "nextGameId s' = nextGameId s" and "gamesByPlayer s' = gamesByPlayer s"
    and "\<And>i. i \<noteq> gid \<Longrightarrow> games s' i = games s i"
    and "creator (games s' gid) = creator (games s gid)"
    and "opponent (games s' gid) = opponent (games s gid)"
    and "started (games s' gid) \<Longrightarrow> opponent (games s gid) \<noteq> 0"
    and "creator (games s gid) \<noteq> 0"
  shows "registry_inv s'"
proof (rule registry_invI)
  have lt: "gid < nextGameId s"
    using assms(8) registry_inv_allocated [OF inv] by blast
  {
    fix i assume "nextGameId s' \<le> i"
    then show "games s' i = zero_Game"
      using inv lt assms(2,4) by (simp add: registry_inv_unallocated)
  next
    fix i assume "i < nextGameId s'"
    then show "creator (games s' i) \<noteq> 0"
      using registry_inv_creator [OF inv, of i] assms(2,4,5) by (cases "i = gid") simp_all
  next
    fix i assume "i < nextGameId s'"
    then show "opponent (games s' i) \<noteq> creator (games s' i)"
      using registry_inv_opponent [OF inv, of i] assms(2,4,5,6) by (cases "i = gid") simp_all
  next
    fix i assume "started (games s' i)"
    then show "opponent (games s' i) \<noteq> 0"
      using registry_inv_started [OF inv, of i] assms(4,6,7) by (cases "i = gid") simp_all
  next
    fix p show "distinct (gamesByPlayer s' p)"
      using inv assms(3) by (simp add: registry_inv_distinct)
  next
    fix p i assume "i \<in> set (gamesByPlayer s' p)"
    then show "i < nextGameId s'"
      using registry_inv_listed [OF inv] assms(2,3) by simp
  next
    fix p i assume "i \<in> set (gamesByPlayer s' p)"
    then show "p \<noteq> 0"
      using registry_inv_nonzero [OF inv] assms(3) by simp
  next
    fix p i assume "i \<in> set (gamesByPlayer s' p)"
    then show "p = creator (games s' i) \<or> p = opponent (games s' i)"
      using registry_inv_member [OF inv, of i p] assms(3,4,5,6) by (cases "i = gid") simp_all
  }
qed

lemma registry_inv_begun:
  assumes "registry_inv s" "creator (games s gid) \<noteq> 0" "opponent (games s gid) \<noteq> 0"
  shows "registry_inv (begun gid s)"
  using assms by (rule_tac gid = gid in registry_inv_same) simp_all

lemma registry_inv_stake_stored:
  assumes "registry_inv s" "creator (games s gid) \<noteq> 0" "started (games s gid)"
  shows "registry_inv (stake_stored a gid x s)"
  using assms
  by (rule_tac gid = gid in registry_inv_same) (simp_all add: registry_inv_started)

lemma registry_inv_settled:
  assumes "registry_inv s" "creator (games s gid) \<noteq> 0" "started (games s gid)"
  shows "registry_inv (settled gid s)"
  using assms
  by (rule_tac gid = gid in registry_inv_same)
     (simp_all add: registry_inv_started games_settled)

lemma registry_inv_step:
  assumes "registry_inv s" "a \<noteq> 0" "exec a c s = Inr s'"
  shows "registry_inv s'"
  using assms(3)
proof (cases rule: exec_cases)
  case create
  with assms show ?thesis by (simp add: registry_inv_created)
next
  case (join gid)
  with assms show ?thesis by (simp add: registry_inv_joined)
next
  case (start gid)
  with assms show ?thesis by (simp add: registry_inv_begun)
next
  case (stake gid x)
  with assms show ?thesis by (simp add: registry_inv_stake_stored)
next
  case (settle gid x)
  with assms have "registry_inv (stake_stored a gid x s)"
    by (simp add: registry_inv_stake_stored)
  moreover have "creator (games (stake_stored a gid x s) gid) \<noteq> 0"
    "started (games (stake_stored a gid x s) gid)"
    using settle by simp_all
  ultimately show ?thesis
    using settle by (simp add: registry_inv_settled)
qed

lemma run_registry_inv: "list_all valid_tx txs \<Longrightarrow> registry_inv (run deployed txs)"
  by (rule run_invariant [where P = registry_inv])
     (auto intro: registry_inv_deployed registry_inv_step)

section \<open>The loops of getOpenGames\<close>

declare countOpen.simps [simp del]

declare fillOpen.simps [simp del]

lemma countOpen_eq:
  "countOpen s n i c =
     c + length (filter (\<lambda>i. creator (games s i) \<noteq> 0 \<and> opponent (games s i) = 0) [i..<n])"
proof (induction s n i c rule: countOpen.induct)
  case (1 s n i c)
  show ?case
  proof (cases "i < n")
    case True
    then have "[i..<n] = i # [Suc i..<n]" by (rule upt_conv_Cons)
    with True "1.IH" show ?thesis
      by (subst countOpen.simps) (auto simp add: Let_def)
  next
    case False
    then show ?thesis by (subst countOpen.simps) simp
  qed
qed

lemma fillOpen_eq:
  assumes "index + length (filter (\<lambda>i. creator (games s i) \<noteq> 0 \<and> opponent (games s i) = 0)
             [i..<n]) \<le> length xs"
  shows "fillOpen s n i index xs =
     Inr (take index xs @
          filter (\<lambda>i. creator (games s i) \<noteq> 0 \<and> opponent (games s i) = 0) [i..<n] @
          drop (index + length (filter (\<lambda>i. creator (games s i) \<noteq> 0 \<and>
                  opponent (games s i) = 0) [i..<n])) xs)"
  using assms
proof (induction s n i index xs rule: fillOpen.induct)
  case (1 s n i index xs)
  show ?case
  proof (cases "i < n")
    case False
    then show ?thesis by (subst fillOpen.simps) simp
  next
    case True
    then have upt: "[i..<n] = i # [Suc i..<n]" by (rule upt_conv_Cons)
    show ?thesis
    proof (cases "creator (games s i) \<noteq> 0 \<and> opponent (games s i) = 0")
      case False
      with True upt "1.IH"(2) "1.prems" show ?thesis
        by (subst fillOpen.simps) (auto simp add: Let_def)
    next
      case op: True
      with upt "1.prems" have lt: "index < length xs" by simp
      have tk: "take (Suc index) (xs[index := i]) = take index xs @ [i]"
        using lt by (simp add: take_Suc_conv_app_nth)
      from True op lt upt "1.IH"(1) "1.prems" tk show ?thesis
        by (subst fillOpen.simps) (simp add: Let_def)
    qed
  qed
qed

lemma getOpenGames_eq:
  "getOpenGames s =
     Inr (filter (\<lambda>i. creator (games s i) \<noteq> 0 \<and> opponent (games s i) = 0)
            [0..<nextGameId s])"
  by (simp add: getOpenGames_def Let_def countOpen_eq fillOpen_eq)

section \<open>Joining\<close>

lemma opponent_step:
  assumes "exec a c s = Inr s'" and "opponent (games s gid) \<noteq> 0"
  shows "opponent (games s' gid) = opponent (games s gid)"
  using assms(1)
proof (cases rule: exec_cases)
  case create
  then show ?thesis by simp
next
  case (join gid')
  with assms(2) show ?thesis by auto
next
  case (start gid')
  then show ?thesis by simp
next
  case (stake gid' x)
  then show ?thesis by simp
next
  case (settle gid' x)
  then show ?thesis by (simp add: games_settled)
qed

lemma opponent_run:
  assumes "list_all valid_tx txs" and "opponent (games s gid) \<noteq> 0"
  shows "opponent (games (run s txs) gid) = opponent (games s gid)"
proof -
  have "opponent (games (run s txs) gid) = opponent (games s gid)"
    using refl assms(1)
  proof (rule run_invariant [where P = "\<lambda>t. opponent (games t gid) = opponent (games s gid)"])
    fix t a c t'
    assume "opponent (games t gid) = opponent (games s gid)" and "exec a c t = Inr t'"
    with assms(2) show "opponent (games t' gid) = opponent (games s gid)"
      using opponent_step [of a c t t' gid] by simp
  qed
  then show ?thesis .
qed

section \<open>Arithmetic on the plaintexts\<close>

lemma uint_add_no_wrap:
  fixes a b :: uint32
  assumes "uint a + uint b < 2 ^ 32"
  shows "uint (a + b) = uint a + uint b"
  using assms uint_add_lem [of a b] by simp

lemma uint_sub_clamped:
  fixes stake bal :: uint32
  shows "uint (bal - min stake bal) = uint bal - uint (min stake bal)"
proof -
  have "min stake bal \<le> bal" by simp
  then have "uint (min stake bal) \<le> uint bal" by (simp add: word_le_def)
  then show ?thesis using uint_sub_lem by blast
qed

lemma uint_min_le:
  fixes stake bal :: uint32
  shows "uint (min stake bal) \<le> uint bal"
proof -
  have "min stake bal \<le> bal" by simp
  then show ?thesis by (simp add: word_le_def)
qed

lemma uint_plus_one:
  fixes a :: uint32
  assumes "a \<noteq> - 1"
  shows "uint (a + 1) = uint a + 1"
proof -
  have "uint a \<noteq> 2 ^ 32 - 1"
  proof
    assume "uint a = 2 ^ 32 - 1"
    then have "a = word_of_int (2 ^ 32 - 1)" by (metis word_of_int_uint)
    then have "a = - 1" by simp
    with assms show False by simp
  qed
  moreover have "uint a < 2 ^ 32" using uint_bounded [of a] by simp
  ultimately have "uint a + uint (1 :: uint32) < 2 ^ 32" by simp
  then show ?thesis using uint_add_no_wrap [of a 1] by simp
qed

section \<open>Balances and scores\<close>

lemma balance_inv_deployed: "balance_inv deployed"
  by (simp add: balance_inv_def deployed_def zero_Game_def)

lemma balance_inv_created: "balance_inv s \<Longrightarrow> balance_inv (created a s)"
  by (simp add: balance_inv_def)

lemma balance_inv_joined: "balance_inv s \<Longrightarrow> balance_inv (joined a gid s)"
  by (simp add: balance_inv_def)

lemma balance_inv_begun: "balance_inv s \<Longrightarrow> balance_inv (begun gid s)"
  by (simp add: balance_inv_def)

lemma balance_inv_stake_stored: "balance_inv s \<Longrightarrow> balance_inv (stake_stored a gid x s)"
  by (simp add: balance_inv_def)

lemma settled_balances:
  fixes cb ob ce oe :: uint32
  assumes "uint cb + uint ob < 2 ^ 32" and "ce \<le> cb" and "oe \<le> ob"
  shows "uint (if oe < ce then cb + oe else if ce < oe then cb - ce else cb) +
         uint (if ce < oe then ob + ce else if oe < ce then ob - oe else ob) =
         uint cb + uint ob"
proof -
  have le: "uint ce \<le> uint cb" "uint oe \<le> uint ob"
    using assms(2,3) by (simp_all add: word_le_def)
  have "uint cb + uint oe < 2 ^ 32" "uint ob + uint ce < 2 ^ 32"
    using assms(1) le by linarith+
  then have add: "uint (cb + oe) = uint cb + uint oe" "uint (ob + ce) = uint ob + uint ce"
    by (simp_all add: uint_add_no_wrap)
  have sub: "uint (cb - ce) = uint cb - uint ce" "uint (ob - oe) = uint ob - uint oe"
    using le uint_sub_lem by blast+
  consider "oe < ce" | "ce < oe" | "ce = oe"
    using linorder_cases [of oe ce] by blast
  then show ?thesis
  proof cases
    case 1
    then have "\<not> ce < oe" by simp
    with 1 add sub show ?thesis by simp
  next
    case 2
    then have "\<not> oe < ce" by simp
    with 2 add sub show ?thesis by simp
  next
    case 3
    then show ?thesis by simp
  qed
qed

lemma balance_sum_settled:
  assumes "uint (plain (creatorBalance (games s gid))) +
           uint (plain (opponentBalance (games s gid))) < 2 ^ 32"
  shows "uint (plain (creatorBalance (games (settled gid s) gid))) +
         uint (plain (opponentBalance (games (settled gid s) gid))) =
         uint (plain (creatorBalance (games s gid))) +
         uint (plain (opponentBalance (games s gid)))"
  using settled_balances [OF assms,
      of "min (plain (creatorStake (games s gid))) (plain (creatorBalance (games s gid)))"
         "min (plain (opponentStake (games s gid))) (plain (opponentBalance (games s gid)))"]
  by (simp add: games_settled Let_def split del: if_split cong: if_cong)

lemma balance_inv_settled:
  assumes "balance_inv s" and "started (games s gid)"
  shows "balance_inv (settled gid s)"
  unfolding balance_inv_def
proof (intro allI impI)
  fix i assume st: "started (games (settled gid s) i)"
  show "uint (plain (creatorBalance (games (settled gid s) i))) +
        uint (plain (opponentBalance (games (settled gid s) i))) = 200"
  proof (cases "i = gid")
    case True
    have sum: "uint (plain (creatorBalance (games s gid))) +
        uint (plain (opponentBalance (games s gid))) = 200"
      using assms by (simp add: balance_inv_def)
    then show ?thesis
      using True balance_sum_settled [of s gid] by simp
  next
    case False
    with st assms(1) show ?thesis
      by (simp add: balance_inv_def games_settled)
  qed
qed

lemma score_inv_deployed: "score_inv deployed"
  by (simp add: score_inv_def deployed_def)

lemma score_inv_created:
  assumes "score_inv s" and "registry_inv s"
  shows "score_inv (created a s)"
proof -
  have "games s (nextGameId s) = zero_Game"
    using assms(2) by (simp add: registry_inv_unallocated)
  then show ?thesis
    using assms(1)
    by (auto simp add: score_inv_def zero_Game_def zero_euint32_def less_Suc_eq)
qed

lemma score_inv_joined: "score_inv s \<Longrightarrow> score_inv (joined a gid s)"
  by (simp add: score_inv_def)

lemma score_inv_begun:
  assumes "score_inv s" and "gid < nextGameId s"
  shows "score_inv (begun gid s)"
proof -
  have "0 \<le> uint (plain (creatorScore (games s gid)))"
    "0 \<le> uint (plain (opponentScore (games s gid)))"
    by simp_all
  moreover have "uint (plain (creatorScore (games s gid))) +
      uint (plain (opponentScore (games s gid))) < uint (round (games s gid))"
    using assms by (simp add: score_inv_def)
  ultimately have "0 < uint (round (games s gid))" by linarith
  then show ?thesis
    using assms(1) by (simp add: score_inv_def)
qed

lemma score_inv_stake_stored: "score_inv s \<Longrightarrow> score_inv (stake_stored a gid x s)"
  by (simp add: score_inv_def)

lemma settled_scores:
  fixes cs os r ce oe :: uint32
  assumes "uint cs + uint os < uint r" and "r \<noteq> - 1"
  shows "uint (if oe < ce then cs + 1 else cs) + uint (if ce < oe then os + 1 else os)
           < uint (r + 1)"
    and "uint (cs + 1) = uint cs + 1"
    and "uint (os + 1) = uint os + 1"
proof -
  have r: "uint (r + 1) = uint r + 1"
    using assms(2) by (rule uint_plus_one)
  have rb: "uint r < 2 ^ 32"
    using uint_bounded [of r] by simp
  have "0 \<le> uint cs" "0 \<le> uint os" by simp_all
  with assms(1) rb have "uint cs + 1 < 2 ^ 32" "uint os + 1 < 2 ^ 32"
    by linarith+
  then show c: "uint (cs + 1) = uint cs + 1" and o: "uint (os + 1) = uint os + 1"
    using uint_add_no_wrap [of cs 1] uint_add_no_wrap [of os 1] by simp_all
  consider "oe < ce" | "ce < oe" | "ce = oe"
    using linorder_cases [of oe ce] by blast
  then show "uint (if oe < ce then cs + 1 else cs) + uint (if ce < oe then os + 1 else os)
           < uint (r + 1)"
  proof cases
    case 1
    then have "\<not> ce < oe" by simp
    with 1 assms(1) r c show ?thesis by simp
  next
    case 2
    then have "\<not> oe < ce" by simp
    with 2 assms(1) r o show ?thesis by simp
  next
    case 3
    with assms(1) r show ?thesis by simp
  qed
qed

lemma score_inv_settled:
  assumes "score_inv s" and "gid < nextGameId s" and "round (games s gid) \<noteq> - 1"
  shows "score_inv (settled gid s)"
  unfolding score_inv_def
proof (intro allI impI)
  fix i assume lt: "i < nextGameId (settled gid s)"
  show "uint (plain (creatorScore (games (settled gid s) i))) +
        uint (plain (opponentScore (games (settled gid s) i)))
          < uint (round (games (settled gid s) i))"
  proof (cases "i = gid")
    case True
    let ?g = "games s gid"
    let ?ce = "min (plain (creatorStake ?g)) (plain (creatorBalance ?g))"
    let ?oe = "min (plain (opponentStake ?g)) (plain (opponentBalance ?g))"
    have "uint (plain (creatorScore ?g)) + uint (plain (opponentScore ?g)) < uint (round ?g)"
      using assms(1,2) by (simp add: score_inv_def)
    from settled_scores(1) [OF this assms(3), of ?oe ?ce]
    show ?thesis
      using True by (simp add: games_settled Let_def split del: if_split cong: if_cong)
  next
    case False
    with lt assms(1) show ?thesis
      by (simp add: score_inv_def games_settled)
  qed
qed

lemma arith_inv_step:
  assumes "registry_inv s" and "balance_inv s" and "score_inv s"
    and "exec a c s = Inr s'"
  shows "balance_inv s' \<and> score_inv s'"
  using assms(4)
proof (cases rule: exec_cases)
  case create
  with assms show ?thesis by (simp add: balance_inv_created score_inv_created)
next
  case (join gid)
  with assms show ?thesis by (simp add: balance_inv_joined score_inv_joined)
next
  case (start gid)
  then have "gid < nextGameId s"
    using registry_inv_allocated [OF assms(1)] by blast
  with start assms show ?thesis by (simp add: balance_inv_begun score_inv_begun)
next
  case (stake gid x)
  with assms show ?thesis by (simp add: balance_inv_stake_stored score_inv_stake_stored)
next
  case (settle gid x)
  let ?t = "stake_stored a gid x s"
  have lt: "gid < nextGameId ?t"
    using settle registry_inv_allocated [OF assms(1)] by simp
  have "started (games ?t gid)" "round (games ?t gid) \<noteq> - 1"
    using settle by simp_all
  with lt settle assms show ?thesis
    by (simp add: balance_inv_stake_stored score_inv_stake_stored balance_inv_settled
          score_inv_settled)
qed

lemma run_arith_inv:
  assumes "list_all valid_tx txs"
  shows "registry_inv (run deployed txs) \<and> balance_inv (run deployed txs) \<and>
         score_inv (run deployed txs)"
  using _ assms
proof (rule run_invariant [where P = "\<lambda>s. registry_inv s \<and> balance_inv s \<and> score_inv s"])
  show "registry_inv deployed \<and> balance_inv deployed \<and> score_inv deployed"
    by (simp add: registry_inv_deployed balance_inv_deployed score_inv_deployed)
next
  fix s a c s'
  assume "registry_inv s \<and> balance_inv s \<and> score_inv s" "a \<noteq> (0 :: address)"
    "exec a c s = Inr s'"
  then show "registry_inv s' \<and> balance_inv s' \<and> score_inv s'"
    using registry_inv_step [of s a c s'] arith_inv_step [of s a c s'] by blast
qed

section \<open>Settlement as seen from the second submission\<close>

lemma submitStake_settles:
  assumes "submitStake a gid x p s = Inr s'"
    and "creatorSubmitted (games s gid) \<or> opponentSubmitted (games s gid)"
  shows "s' = settled gid (stake_stored a gid x s)"
    and "round (games s gid) \<noteq> - 1"
    and "started (games s gid)"
    and "creator (games s gid) \<noteq> 0"
    and "a = creator (games s gid) \<or> a = opponent (games s gid)"
    and "p"
  using assms
  by (auto simp add: submitStake_eq resolveRound_eq split: if_splits)

lemma stake_stored_game [simp]:
  "creator (games (stake_stored a gid x s) i) = creator (games s i)"
  "opponent (games (stake_stored a gid x s) i) = opponent (games s i)"
  "started (games (stake_stored a gid x s) i) = started (games s i)"
  "round (games (stake_stored a gid x s) i) = round (games s i)"
  "creatorBalance (games (stake_stored a gid x s) i) = creatorBalance (games s i)"
  "opponentBalance (games (stake_stored a gid x s) i) = opponentBalance (games s i)"
  "creatorScore (games (stake_stored a gid x s) i) = creatorScore (games s i)"
  "opponentScore (games (stake_stored a gid x s) i) = opponentScore (games s i)"
  by simp_all

lemma stake_stored_stakes:
  "plain (creatorStake (games (stake_stored a gid x s) gid)) =
     (if a = creator (games s gid) then ext_plain x else plain (creatorStake (games s gid)))"
  "plain (opponentStake (games (stake_stored a gid x s) gid)) =
     (if a = creator (games s gid) then plain (opponentStake (games s gid)) else ext_plain x)"
  by simp_all

lemma settled_game:
  "creator (games (settled gid s) i) = creator (games s i)"
  "opponent (games (settled gid s) i) = opponent (games s i)"
  "started (games (settled gid s) i) = started (games s i)"
  "round (games (settled gid s) gid) = round (games s gid) + 1"
  "\<not> creatorSubmitted (games (settled gid s) gid)"
  "\<not> opponentSubmitted (games (settled gid s) gid)"
  "plain (creatorStake (games (settled gid s) gid)) = 0"
  "plain (opponentStake (games (settled gid s) gid)) = 0"
  by (simp_all add: games_settled)

lemma settled_plain:
  "plain (creatorBalance (games (settled gid s) gid)) =
     (let g = games s gid;
          ce = min (plain (creatorStake g)) (plain (creatorBalance g));
          oe = min (plain (opponentStake g)) (plain (opponentBalance g))
      in if oe < ce then plain (creatorBalance g) + oe
         else if ce < oe then plain (creatorBalance g) - ce
         else plain (creatorBalance g))"
  "plain (opponentBalance (games (settled gid s) gid)) =
     (let g = games s gid;
          ce = min (plain (creatorStake g)) (plain (creatorBalance g));
          oe = min (plain (opponentStake g)) (plain (opponentBalance g))
      in if ce < oe then plain (opponentBalance g) + ce
         else if oe < ce then plain (opponentBalance g) - oe
         else plain (opponentBalance g))"
  "plain (creatorScore (games (settled gid s) gid)) =
     (let g = games s gid;
          ce = min (plain (creatorStake g)) (plain (creatorBalance g));
          oe = min (plain (opponentStake g)) (plain (opponentBalance g))
      in if oe < ce then plain (creatorScore g) + 1 else plain (creatorScore g))"
  "plain (opponentScore (games (settled gid s) gid)) =
     (let g = games s gid;
          ce = min (plain (creatorStake g)) (plain (creatorBalance g));
          oe = min (plain (opponentStake g)) (plain (opponentBalance g))
      in if ce < oe then plain (opponentScore g) + 1 else plain (opponentScore g))"
  by (simp_all add: games_settled)

section \<open>The duel of the test, step by step\<close>

lemma duel_round_result:
  "plain (creatorBalance (games (run deployed duel_round) 0)) = 110"
  "plain (opponentBalance (games (run deployed duel_round) 0)) = 90"
  "plain (creatorScore (games (run deployed duel_round) 0)) = 1"
  "plain (opponentScore (games (run deployed duel_round) 0)) = 0"
  "round (games (run deployed duel_round) 0) = 2"
  by (simp_all add: duel_round_def duel_setup_def alice_def bob_def transact_def
        createGame_eq joinGame_eq startGame_eq submitStake_eq resolveRound_eq
        deployed_def zero_Game_def settled_plain settled_game Let_def)

lemmas duel_eval =
  duel_round_def duel_setup_def duel_joined_def duel_first_stake_def duel_tie_def
  alice_def bob_def valid_tx_def transact_def
  createGame_eq joinGame_eq startGame_eq submitStake_eq resolveRound_eq
  deployed_def zero_Game_def zero_euint32_def

lemma duel_first_stake_state:
  "creator (games (run deployed duel_first_stake) 0) = alice"
  "opponent (games (run deployed duel_first_stake) 0) = bob"
  "started (games (run deployed duel_first_stake) 0)"
  "round (games (run deployed duel_first_stake) 0) = 1"
  "creatorSubmitted (games (run deployed duel_first_stake) 0)"
  "\<not> opponentSubmitted (games (run deployed duel_first_stake) 0)"
  "plain (creatorStake (games (run deployed duel_first_stake) 0)) = 25"
  "plain (creatorBalance (games (run deployed duel_first_stake) 0)) = 100"
  "plain (opponentBalance (games (run deployed duel_first_stake) 0)) = 100"
  "plain (creatorScore (games (run deployed duel_first_stake) 0)) = 0"
  "plain (opponentScore (games (run deployed duel_first_stake) 0)) = 0"
  by (simp_all add: duel_eval)

lemma duel_valid:
  "list_all valid_tx duel_joined" "list_all valid_tx duel_setup"
  "list_all valid_tx duel_first_stake" "list_all valid_tx duel_tie"
  "list_all valid_tx duel_round"
  by (simp_all add: duel_eval)

lemma duel_second_stake:
  "submitStake bob 0 (ExternalEuint32 10) True (run deployed duel_first_stake) =
     Inr (settled 0 (stake_stored bob 0 (ExternalEuint32 10) (run deployed duel_first_stake)))"
  using duel_first_stake_state
  by (simp add: submitStake_eq resolveRound_eq alice_def bob_def)

lemma duel_joined_state:
  "creator (games (run deployed duel_joined) 0) = alice"
  "opponent (games (run deployed duel_joined) 0) = bob"
  "\<not> started (games (run deployed duel_joined) 0)"
  "acl (fhe (run deployed duel_joined)) = {}"
  by (simp_all add: duel_eval)

lemma duel_start:
  "startGame alice 0 (run deployed duel_joined) = Inr (begun 0 (run deployed duel_joined))"
  using duel_joined_state by (simp add: startGame_eq alice_def bob_def)

lemma duel_tie_state:
  "creator (games (run deployed duel_tie) 0) = alice"
  "opponent (games (run deployed duel_tie) 0) = bob"
  "started (games (run deployed duel_tie) 0)"
  "round (games (run deployed duel_tie) 0) = 1"
  "\<not> creatorSubmitted (games (run deployed duel_tie) 0)"
  "opponentSubmitted (games (run deployed duel_tie) 0)"
  "plain (opponentStake (games (run deployed duel_tie) 0)) = 15"
  "plain (creatorBalance (games (run deployed duel_tie) 0)) = 100"
  "plain (opponentBalance (games (run deployed duel_tie) 0)) = 100"
  "plain (creatorScore (games (run deployed duel_tie) 0)) = 0"
  "plain (opponentScore (games (run deployed duel_tie) 0)) = 0"
  by (simp_all add: duel_eval)

lemma submitStake_completes_round:
  assumes "creator (games s gid) \<noteq> 0" and "started (games s gid)"
    and "a = creator (games s gid) \<and> \<not> creatorSubmitted (games s gid) \<and>
           opponentSubmitted (games s gid) \<or>
         a \<noteq> creator (games s gid) \<and> a = opponent (games s gid) \<and>
           \<not> opponentSubmitted (games s gid) \<and> creatorSubmitted (games s gid)"
  shows "submitStake a gid x True s =
     (if round (games s gid) = - 1 then Inl ArithmeticOverflow
      else Inr (settled gid (stake_stored a gid x s)))"
  using assms by (auto simp add: submitStake_eq resolveRound_eq)

lemma duel_setup_state:
  "started (games (run deployed duel_setup) 0)"
  "creator (games (run deployed duel_setup) 0) = alice"
  "opponent (games (run deployed duel_setup) 0) = bob"
  "\<not> creatorSubmitted (games (run deployed duel_setup) 0)"
  "\<not> opponentSubmitted (games (run deployed duel_setup) 0)"
  "plain (creatorBalance (games (run deployed duel_setup) 0)) = 100"
  "plain (opponentBalance (games (run deployed duel_setup) 0)) = 100"
  "handle (creatorBalance (games (run deployed duel_setup) 0)) = Trivial 100"
  "handle (opponentBalance (games (run deployed duel_setup) 0)) = Trivial 100"
  by (simp_all add: duel_eval)

lemma duel_setup_acl:
  "(Trivial 100, Account alice) \<in> acl (fhe (run deployed duel_setup))"
  "(Trivial 100, Account bob) \<in> acl (fhe (run deployed duel_setup))"
  by (simp_all add: duel_eval acl_begun)


section \<open>Grants\<close>

lemma acl_inv_deployed: "acl_inv deployed"
  by (simp add: acl_inv_def game_grants_def deployed_def zero_Game_def)

text \<open>Grants are never taken back, so a game that a call does not touch keeps its own.\<close>

lemma game_grants_mono:
  assumes "game_grants c g" and "acl c \<subseteq> acl c'"
  shows "game_grants c' g"
proof -
  have keep: "\<And>v p. granted c v p \<Longrightarrow> granted c' v p"
    using assms(2) unfolding granted_def by blast
  show ?thesis
    using assms(1) keep unfolding game_grants_def FHE_asEuint32_def
    by simp
qed

lemma acl_invI:
  assumes "acl_inv s"
    and "acl (fhe s) \<subseteq> acl (fhe s')"
    and "\<And>i. i \<noteq> gid \<Longrightarrow> games s' i = games s i"
    and "game_grants (fhe s') (games s' gid)"
  shows "acl_inv s'"
  unfolding acl_inv_def
proof
  fix i
  show "game_grants (fhe s') (games s' i)"
  proof (cases "i = gid")
    case True
    with assms(4) show ?thesis by simp
  next
    case False
    have "game_grants (fhe s) (games s i)"
      using assms(1) unfolding acl_inv_def by simp
    then have "game_grants (fhe s') (games s i)"
      using assms(2) by (rule game_grants_mono)
    with False assms(3) show ?thesis by simp
  qed
qed

lemma acl_inv_created:
  assumes "acl_inv s" and "registry_inv s"
  shows "acl_inv (created a s)"
proof (rule acl_invI [OF assms(1), where gid = "nextGameId s"])
  have z: "games s (nextGameId s) = zero_Game"
    using assms(2) by (simp add: registry_inv_unallocated)
  show "game_grants (fhe (created a s)) (games (created a s) (nextGameId s))"
    by (simp add: game_grants_def z zero_Game_def)
qed simp_all

lemma acl_inv_joined:
  assumes "acl_inv s" and "registry_inv s" and "opponent (games s gid) = 0"
  shows "acl_inv (joined a gid s)"
proof (rule acl_invI [OF assms(1), where gid = gid])
  have ns: "\<not> started (games s gid)"
    using assms(2,3) registry_inv_started by blast
  show "game_grants (fhe (joined a gid s)) (games (joined a gid s) gid)"
    using ns by (simp add: game_grants_def)
qed simp_all

lemma acl_inv_begun:
  assumes "acl_inv s" and "creator (games s gid) \<noteq> 0" and "opponent (games s gid) \<noteq> 0"
  shows "acl_inv (begun gid s)"
proof (rule acl_invI [OF assms(1), where gid = gid])
  show "acl (fhe s) \<subseteq> acl (fhe (begun gid s))"
    by (auto simp add: acl_begun)
  show "game_grants (fhe (begun gid s)) (games (begun gid s) gid)"
    using assms(2,3)
    by (simp add: game_grants_def granted_def acl_begun FHE_asEuint32_def)
qed simp_all

lemma acl_inv_stake_stored:
  assumes "acl_inv s" and "a \<noteq> 0" and "started (games s gid)"
    and "a = creator (games s gid) \<or> a = opponent (games s gid)"
  shows "acl_inv (stake_stored a gid x s)"
proof (rule acl_invI [OF assms(1), where gid = gid])
  have old: "game_grants (fhe s) (games s gid)"
    using assms(1) unfolding acl_inv_def by simp
  show "acl (fhe s) \<subseteq> acl (fhe (stake_stored a gid x s))"
    by auto
  show "game_grants (fhe (stake_stored a gid x s)) (games (stake_stored a gid x s) gid)"
    using old assms(2,3,4)
    by (auto simp add: game_grants_def granted_def FHE_asEuint32_def)
qed simp_all

lemma acl_inv_settled:
  assumes "acl_inv s" and "started (games s gid)"
    and "creator (games s gid) \<noteq> 0" and "opponent (games s gid) \<noteq> 0"
  shows "acl_inv (settled gid s)"
proof (rule acl_invI [OF assms(1), where gid = gid])
  have old: "game_grants (fhe s) (games s gid)"
    using assms(1) unfolding acl_inv_def by simp
  show "acl (fhe s) \<subseteq> acl (fhe (settled gid s))"
    by (auto simp add: acl_settled)
  show "game_grants (fhe (settled gid s)) (games (settled gid s) gid)"
    using old assms(2,3,4)
    by (simp add: game_grants_def granted_def acl_settled games_settled FHE_asEuint32_def)
qed (simp_all add: games_settled)

lemma acl_inv_step:
  assumes "registry_inv s" and "acl_inv s" and "a \<noteq> 0" and "exec a c s = Inr s'"
  shows "acl_inv s'"
  using assms(4)
proof (cases rule: exec_cases)
  case create
  with assms show ?thesis by (simp add: acl_inv_created)
next
  case (join gid)
  with assms show ?thesis by (simp add: acl_inv_joined)
next
  case (start gid)
  with assms show ?thesis by (simp add: acl_inv_begun)
next
  case (stake gid x)
  with assms show ?thesis by (simp add: acl_inv_stake_stored)
next
  case (settle gid x)
  let ?t = "stake_stored a gid x s"
  have "acl_inv ?t"
    using settle assms by (simp add: acl_inv_stake_stored)
  moreover have "opponent (games ?t gid) \<noteq> 0"
    using settle registry_inv_started [OF assms(1)] by simp
  moreover have "creator (games ?t gid) \<noteq> 0" "started (games ?t gid)"
    using settle by simp_all
  ultimately show ?thesis
    using settle by (simp add: acl_inv_settled)
qed

lemma run_contract_inv:
  assumes "list_all valid_tx txs"
  shows "contract_inv (run deployed txs)"
  using _ assms
proof (rule run_invariant [where P = contract_inv])
  show "contract_inv deployed"
    by (simp add: contract_inv_def registry_inv_deployed balance_inv_deployed
          score_inv_deployed acl_inv_deployed)
next
  fix s a c s'
  assume "contract_inv s" "a \<noteq> (0 :: address)" "exec a c s = Inr s'"
  then show "contract_inv s'"
    unfolding contract_inv_def
    using registry_inv_step [of s a c s'] arith_inv_step [of s a c s']
      acl_inv_step [of s a c s']
    by blast
qed


section \<open>The properties of the contract\<close>

subsection \<open>Settlement with a strict winner\<close>

text \<open>
  C1. When a submission completes a round, the effective stakes are the submitted stakes
  clamped to the balances. If the creator's effective stake is strictly greater, the
  creator's balance grows by the opponent's effective stake, the opponent's balance
  shrinks by it, the creator's score grows by 1 and the opponent's score is unchanged;
  symmetrically if the opponent's is strictly greater. All equations are between the
  plaintexts read as integers. In the duel of the test (stakes 25 against 10 from fresh
  balances of 100) the result is 110, 90, 1, 0 and round 2.
\<close>

theorem settlement_strict_winner:
  assumes "list_all valid_tx txs" and "s = run deployed txs"
    and "submitStake a gid x p s = Inr s'"
    and "creatorSubmitted (games s gid) \<or> opponentSubmitted (games s gid)"
  shows "(let g = games s gid; g' = games s' gid;
              ce = effectiveCreatorStake a gid x s; oe = effectiveOpponentStake a gid x s
          in (oe < ce \<longrightarrow>
                uint (plain (creatorBalance g')) = uint (plain (creatorBalance g)) + uint oe \<and>
                uint (plain (opponentBalance g')) = uint (plain (opponentBalance g)) - uint oe \<and>
                uint (plain (creatorScore g')) = uint (plain (creatorScore g)) + 1 \<and>
                plain (opponentScore g') = plain (opponentScore g)) \<and>
             (ce < oe \<longrightarrow>
                uint (plain (opponentBalance g')) = uint (plain (opponentBalance g)) + uint ce \<and>
                uint (plain (creatorBalance g')) = uint (plain (creatorBalance g)) - uint ce \<and>
                uint (plain (opponentScore g')) = uint (plain (opponentScore g)) + 1 \<and>
                plain (creatorScore g') = plain (creatorScore g))) \<and>
         (let g = games (run deployed duel_round) 0
          in plain (creatorBalance g) = 110 \<and> plain (opponentBalance g) = 90 \<and>
             plain (creatorScore g) = 1 \<and> plain (opponentScore g) = 0 \<and> round g = 2)"
proof -
  let ?g = "games s gid"
  let ?t = "stake_stored a gid x s"
  let ?ce = "effectiveCreatorStake a gid x s"
  let ?oe = "effectiveOpponentStake a gid x s"
  from assms(1,2) have inv: "registry_inv s" "balance_inv s" "score_inv s"
    using run_arith_inv by simp_all
  from submitStake_settles [OF assms(3,4)]
  have s': "s' = settled gid ?t" and r: "round ?g \<noteq> - 1" and st: "started ?g"
    and c: "creator ?g \<noteq> 0"
    by simp_all
  have lt: "gid < nextGameId s"
    using c registry_inv_allocated [OF inv(1)] by blast
  have sum: "uint (plain (creatorBalance ?g)) + uint (plain (opponentBalance ?g)) = 200"
    using inv(2) st by (simp add: balance_inv_def)
  have sc: "uint (plain (creatorScore ?g)) + uint (plain (opponentScore ?g)) < uint (round ?g)"
    using inv(3) lt by (simp add: score_inv_def)
  have le: "uint ?ce \<le> uint (plain (creatorBalance ?g))"
    "uint ?oe \<le> uint (plain (opponentBalance ?g))"
    by (simp_all add: effectiveCreatorStake_def effectiveOpponentStake_def uint_min_le)
  have small: "(400 :: int) < 2 ^ 32" by simp
  have "0 \<le> uint (plain (creatorBalance ?g))" "0 \<le> uint (plain (opponentBalance ?g))"
    by simp_all
  with sum le small have "uint (plain (creatorBalance ?g)) + uint ?oe < 2 ^ 32"
    "uint (plain (opponentBalance ?g)) + uint ?ce < 2 ^ 32"
    by linarith+
  then have add: "uint (plain (creatorBalance ?g) + ?oe) = uint (plain (creatorBalance ?g)) + uint ?oe"
    "uint (plain (opponentBalance ?g) + ?ce) = uint (plain (opponentBalance ?g)) + uint ?ce"
    by (simp_all add: uint_add_no_wrap)
  have sub: "uint (plain (creatorBalance ?g) - ?ce) = uint (plain (creatorBalance ?g)) - uint ?ce"
    "uint (plain (opponentBalance ?g) - ?oe) = uint (plain (opponentBalance ?g)) - uint ?oe"
    by (simp_all add: effectiveCreatorStake_def effectiveOpponentStake_def uint_sub_clamped)
  have one: "uint (plain (creatorScore ?g) + 1) = uint (plain (creatorScore ?g)) + 1"
    "uint (plain (opponentScore ?g) + 1) = uint (plain (opponentScore ?g)) + 1"
    using settled_scores(2,3) [OF sc r] by simp_all
  have eff: "min (plain (creatorStake (games ?t gid))) (plain (creatorBalance (games ?t gid))) = ?ce"
    "min (plain (opponentStake (games ?t gid))) (plain (opponentBalance (games ?t gid))) = ?oe"
    by (simp_all add: effectiveCreatorStake_def effectiveOpponentStake_def
          submittedCreatorStake_def submittedOpponentStake_def)
  have cb': "plain (creatorBalance (games s' gid)) =
      (if ?oe < ?ce then plain (creatorBalance ?g) + ?oe
       else if ?ce < ?oe then plain (creatorBalance ?g) - ?ce else plain (creatorBalance ?g))"
    and ob': "plain (opponentBalance (games s' gid)) =
      (if ?ce < ?oe then plain (opponentBalance ?g) + ?ce
       else if ?oe < ?ce then plain (opponentBalance ?g) - ?oe else plain (opponentBalance ?g))"
    and cs': "plain (creatorScore (games s' gid)) =
      (if ?oe < ?ce then plain (creatorScore ?g) + 1 else plain (creatorScore ?g))"
    and os': "plain (opponentScore (games s' gid)) =
      (if ?ce < ?oe then plain (opponentScore ?g) + 1 else plain (opponentScore ?g))"
    unfolding s' settled_plain Let_def eff by simp_all
  have win: "?oe < ?ce \<longrightarrow>
      uint (plain (creatorBalance (games s' gid))) = uint (plain (creatorBalance ?g)) + uint ?oe \<and>
      uint (plain (opponentBalance (games s' gid))) = uint (plain (opponentBalance ?g)) - uint ?oe \<and>
      uint (plain (creatorScore (games s' gid))) = uint (plain (creatorScore ?g)) + 1 \<and>
      plain (opponentScore (games s' gid)) = plain (opponentScore ?g)"
  proof
    assume w: "?oe < ?ce"
    then have "\<not> ?ce < ?oe" by simp
    with w show "uint (plain (creatorBalance (games s' gid))) =
        uint (plain (creatorBalance ?g)) + uint ?oe \<and>
      uint (plain (opponentBalance (games s' gid))) =
        uint (plain (opponentBalance ?g)) - uint ?oe \<and>
      uint (plain (creatorScore (games s' gid))) = uint (plain (creatorScore ?g)) + 1 \<and>
      plain (opponentScore (games s' gid)) = plain (opponentScore ?g)"
      by (simp add: cb' ob' cs' os' add sub one)
  qed
  have lose: "?ce < ?oe \<longrightarrow>
      uint (plain (opponentBalance (games s' gid))) = uint (plain (opponentBalance ?g)) + uint ?ce \<and>
      uint (plain (creatorBalance (games s' gid))) = uint (plain (creatorBalance ?g)) - uint ?ce \<and>
      uint (plain (opponentScore (games s' gid))) = uint (plain (opponentScore ?g)) + 1 \<and>
      plain (creatorScore (games s' gid)) = plain (creatorScore ?g)"
  proof
    assume w: "?ce < ?oe"
    then have "\<not> ?oe < ?ce" by simp
    with w show "uint (plain (opponentBalance (games s' gid))) =
        uint (plain (opponentBalance ?g)) + uint ?ce \<and>
      uint (plain (creatorBalance (games s' gid))) =
        uint (plain (creatorBalance ?g)) - uint ?ce \<and>
      uint (plain (opponentScore (games s' gid))) = uint (plain (opponentScore ?g)) + 1 \<and>
      plain (creatorScore (games s' gid)) = plain (creatorScore ?g)"
      by (simp add: cb' ob' cs' os' add sub one)
  qed
  from win lose show ?thesis
    by (simp add: Let_def duel_round_result)
qed

theorem settlement_strict_winner_witness:
  "list_all valid_tx duel_first_stake \<and>
   submitStake bob 0 (ExternalEuint32 10) True (run deployed duel_first_stake) =
     Inr (settled 0 (stake_stored bob 0 (ExternalEuint32 10) (run deployed duel_first_stake))) \<and>
   creatorSubmitted (games (run deployed duel_first_stake) 0) \<and>
   effectiveCreatorStake bob 0 (ExternalEuint32 10) (run deployed duel_first_stake) = 25 \<and>
   effectiveOpponentStake bob 0 (ExternalEuint32 10) (run deployed duel_first_stake) = 10 \<and>
   uint (plain (creatorBalance (games (settled 0
     (stake_stored bob 0 (ExternalEuint32 10) (run deployed duel_first_stake))) 0))) = 110 \<and>
   uint (plain (opponentBalance (games (settled 0
     (stake_stored bob 0 (ExternalEuint32 10) (run deployed duel_first_stake))) 0))) = 90 \<and>
   uint (plain (creatorScore (games (settled 0
     (stake_stored bob 0 (ExternalEuint32 10) (run deployed duel_first_stake))) 0))) = 1 \<and>
   plain (opponentScore (games (settled 0
     (stake_stored bob 0 (ExternalEuint32 10) (run deployed duel_first_stake))) 0)) = 0"
proof -
  have ce: "effectiveCreatorStake bob 0 (ExternalEuint32 10) (run deployed duel_first_stake) = 25"
    and oe: "effectiveOpponentStake bob 0 (ExternalEuint32 10) (run deployed duel_first_stake) = 10"
    using duel_first_stake_state
    by (simp_all add: effectiveCreatorStake_def effectiveOpponentStake_def
          submittedCreatorStake_def submittedOpponentStake_def alice_def bob_def)
  have sub: "creatorSubmitted (games (run deployed duel_first_stake) 0) \<or>
      opponentSubmitted (games (run deployed duel_first_stake) 0)"
    using duel_first_stake_state by simp
  show ?thesis
    using settlement_strict_winner [OF duel_valid(3) refl duel_second_stake sub]
      duel_valid(3) duel_second_stake duel_first_stake_state(5,8,9,10,11) ce oe
    by (simp add: Let_def)
qed

subsection \<open>Conservation of the balances\<close>

text \<open>
  C2. In every reachable state the two balances of a started game add up to 200, as
  integers. A successful \<open>submitStake\<close>, whether it only stores a stake or also
  settles the round, leaves the sum of the two balances as it was, and a successful
  \<open>startGame\<close> sets both balances to 100.
\<close>

theorem balance_sum_conserved:
  assumes "list_all valid_tx txs" and "s = run deployed txs"
  shows "(started (games s gid) \<longrightarrow>
            uint (plain (creatorBalance (games s gid))) +
            uint (plain (opponentBalance (games s gid))) = 200) \<and>
         (submitStake a gid x p s = Inr s' \<longrightarrow>
            uint (plain (creatorBalance (games s' gid))) +
            uint (plain (opponentBalance (games s' gid))) =
            uint (plain (creatorBalance (games s gid))) +
            uint (plain (opponentBalance (games s gid)))) \<and>
         (startGame a gid s = Inr s'' \<longrightarrow>
            plain (creatorBalance (games s'' gid)) = 100 \<and>
            plain (opponentBalance (games s'' gid)) = 100)"
proof (intro conjI impI)
  from assms have inv: "balance_inv s"
    using run_arith_inv by simp
  {
    assume "started (games s gid)"
    with inv show "uint (plain (creatorBalance (games s gid))) +
        uint (plain (opponentBalance (games s gid))) = 200"
      by (simp add: balance_inv_def)
  next
    assume sub: "submitStake a gid x p s = Inr s'"
    then have "exec a (SubmitStake gid x p) s = Inr s'" by simp
    then show "uint (plain (creatorBalance (games s' gid))) +
        uint (plain (opponentBalance (games s' gid))) =
        uint (plain (creatorBalance (games s gid))) +
        uint (plain (opponentBalance (games s gid)))"
    proof (cases rule: exec_cases)
      case (stake gid' x')
      then show ?thesis by simp
    next
      case (settle gid' x')
      let ?t = "stake_stored a gid x s"
      from settle inv have "uint (plain (creatorBalance (games s gid))) +
          uint (plain (opponentBalance (games s gid))) = 200"
        by (simp add: balance_inv_def)
      then have "uint (plain (creatorBalance (games ?t gid))) +
          uint (plain (opponentBalance (games ?t gid))) < 2 ^ 32"
        by simp
      from balance_sum_settled [OF this] settle show ?thesis by simp
    qed simp_all
  next
    assume "startGame a gid s = Inr s''"
    then have "s'' = begun gid s"
      by (auto simp add: startGame_eq split: if_splits)
    then show "plain (creatorBalance (games s'' gid)) = 100"
      and "plain (opponentBalance (games s'' gid)) = 100"
      by simp_all
  }
qed

theorem balance_sum_conserved_witness:
  "list_all valid_tx duel_first_stake \<and> list_all valid_tx duel_joined \<and>
   started (games (run deployed duel_first_stake) 0) \<and>
   submitStake bob 0 (ExternalEuint32 10) True (run deployed duel_first_stake) =
     Inr (settled 0 (stake_stored bob 0 (ExternalEuint32 10) (run deployed duel_first_stake))) \<and>
   startGame alice 0 (run deployed duel_joined) = Inr (begun 0 (run deployed duel_joined)) \<and>
   uint (plain (creatorBalance (games (run deployed duel_first_stake) 0))) +
   uint (plain (opponentBalance (games (run deployed duel_first_stake) 0))) = 200 \<and>
   uint (plain (creatorBalance (games (settled 0
     (stake_stored bob 0 (ExternalEuint32 10) (run deployed duel_first_stake))) 0))) +
   uint (plain (opponentBalance (games (settled 0
     (stake_stored bob 0 (ExternalEuint32 10) (run deployed duel_first_stake))) 0))) = 200 \<and>
   plain (creatorBalance (games (begun 0 (run deployed duel_joined)) 0)) = 100 \<and>
   plain (opponentBalance (games (begun 0 (run deployed duel_joined)) 0)) = 100"
  using balance_sum_conserved [OF duel_valid(3) refl, where gid = 0 and a = bob
      and x = "ExternalEuint32 10" and p = True
      and s' = "settled 0 (stake_stored bob 0 (ExternalEuint32 10) (run deployed duel_first_stake))"]
    balance_sum_conserved [OF duel_valid(1) refl, where gid = 0 and a = alice
      and s'' = "begun 0 (run deployed duel_joined)"]
    duel_valid(1,3) duel_second_stake duel_start duel_first_stake_state(3)
  by simp

subsection \<open>The stake clamp\<close>

text \<open>
  C3. Whatever the stakes submitted, also when they exceed the balance of the
  submitter, the effective stake of a side is at most its balance, so the homomorphic
  subtraction of the effective stake from the balance does not wrap around: read as
  integers, the loser's new balance is the old balance minus the effective stake, and
  that difference is not negative.
\<close>

theorem settlement_never_underflows:
  assumes "submitStake a gid x p s = Inr s'"
    and "creatorSubmitted (games s gid) \<or> opponentSubmitted (games s gid)"
  shows "(let g = games s gid; g' = games s' gid;
              ce = effectiveCreatorStake a gid x s; oe = effectiveOpponentStake a gid x s
          in uint ce \<le> uint (plain (creatorBalance g)) \<and>
             uint oe \<le> uint (plain (opponentBalance g)) \<and>
             (ce < oe \<longrightarrow>
                uint (plain (creatorBalance g')) = uint (plain (creatorBalance g)) - uint ce) \<and>
             (oe < ce \<longrightarrow>
                uint (plain (opponentBalance g')) = uint (plain (opponentBalance g)) - uint oe)) \<and>
         uint (plain (fst (FHE_sub bal (fst (FHE_min stake bal c)) c'))) =
           uint (plain bal) - uint (min (plain stake) (plain bal)) \<and>
         0 \<le> uint (plain bal) - uint (min (plain stake) (plain bal))"
proof -
  let ?g = "games s gid"
  let ?t = "stake_stored a gid x s"
  let ?ce = "effectiveCreatorStake a gid x s"
  let ?oe = "effectiveOpponentStake a gid x s"
  from submitStake_settles(1) [OF assms] have s': "s' = settled gid ?t" .
  have le: "uint ?ce \<le> uint (plain (creatorBalance ?g))"
    "uint ?oe \<le> uint (plain (opponentBalance ?g))"
    by (simp_all add: effectiveCreatorStake_def effectiveOpponentStake_def uint_min_le)
  have sub: "uint (plain (creatorBalance ?g) - ?ce) = uint (plain (creatorBalance ?g)) - uint ?ce"
    "uint (plain (opponentBalance ?g) - ?oe) = uint (plain (opponentBalance ?g)) - uint ?oe"
    by (simp_all add: effectiveCreatorStake_def effectiveOpponentStake_def uint_sub_clamped)
  have eff: "min (plain (creatorStake (games ?t gid))) (plain (creatorBalance (games ?t gid))) = ?ce"
    "min (plain (opponentStake (games ?t gid))) (plain (opponentBalance (games ?t gid))) = ?oe"
    by (simp_all add: effectiveCreatorStake_def effectiveOpponentStake_def
          submittedCreatorStake_def submittedOpponentStake_def)
  have cb': "plain (creatorBalance (games s' gid)) =
      (if ?oe < ?ce then plain (creatorBalance ?g) + ?oe
       else if ?ce < ?oe then plain (creatorBalance ?g) - ?ce else plain (creatorBalance ?g))"
    and ob': "plain (opponentBalance (games s' gid)) =
      (if ?ce < ?oe then plain (opponentBalance ?g) + ?ce
       else if ?oe < ?ce then plain (opponentBalance ?g) - ?oe else plain (opponentBalance ?g))"
    unfolding s' settled_plain Let_def eff by simp_all
  have c: "?ce < ?oe \<longrightarrow>
      uint (plain (creatorBalance (games s' gid))) = uint (plain (creatorBalance ?g)) - uint ?ce"
  proof
    assume w: "?ce < ?oe"
    then have "\<not> ?oe < ?ce" by simp
    with w show "uint (plain (creatorBalance (games s' gid))) =
        uint (plain (creatorBalance ?g)) - uint ?ce"
      by (simp add: cb' sub)
  qed
  have o: "?oe < ?ce \<longrightarrow>
      uint (plain (opponentBalance (games s' gid))) = uint (plain (opponentBalance ?g)) - uint ?oe"
  proof
    assume w: "?oe < ?ce"
    then have "\<not> ?ce < ?oe" by simp
    with w show "uint (plain (opponentBalance (games s' gid))) =
        uint (plain (opponentBalance ?g)) - uint ?oe"
      by (simp add: ob' sub)
  qed
  have op: "uint (plain (fst (FHE_sub bal (fst (FHE_min stake bal c)) c'))) =
      uint (plain bal) - uint (min (plain stake) (plain bal))"
    by (simp add: FHE_sub_def FHE_min_def uint_sub_clamped)
  have nonneg: "0 \<le> uint (plain bal) - uint (min (plain stake) (plain bal))"
    using uint_min_le [of "plain stake" "plain bal"] by simp
  from le c o op nonneg show ?thesis
    by (simp add: Let_def)
qed

theorem settlement_never_underflows_witness:
  "submitStake bob 0 (ExternalEuint32 4000000000) True (run deployed duel_first_stake) =
     Inr (settled 0 (stake_stored bob 0 (ExternalEuint32 4000000000)
            (run deployed duel_first_stake))) \<and>
   creatorSubmitted (games (run deployed duel_first_stake) 0) \<and>
   submittedOpponentStake bob 0 (ExternalEuint32 4000000000) (run deployed duel_first_stake)
     = 4000000000 \<and>
   effectiveOpponentStake bob 0 (ExternalEuint32 4000000000) (run deployed duel_first_stake)
     = 100 \<and>
   effectiveCreatorStake bob 0 (ExternalEuint32 4000000000) (run deployed duel_first_stake)
     = 25 \<and>
   uint (plain (creatorBalance (games (settled 0 (stake_stored bob 0
     (ExternalEuint32 4000000000) (run deployed duel_first_stake))) 0))) = 75"
proof -
  let ?x = "ExternalEuint32 4000000000"
  have sub: "submitStake bob 0 ?x True (run deployed duel_first_stake) =
      Inr (settled 0 (stake_stored bob 0 ?x (run deployed duel_first_stake)))"
    using duel_first_stake_state
    by (simp add: submitStake_eq resolveRound_eq alice_def bob_def)
  have fl: "creatorSubmitted (games (run deployed duel_first_stake) 0) \<or>
      opponentSubmitted (games (run deployed duel_first_stake) 0)"
    using duel_first_stake_state by simp
  have st: "submittedOpponentStake bob 0 ?x (run deployed duel_first_stake) = 4000000000"
    and oe: "effectiveOpponentStake bob 0 ?x (run deployed duel_first_stake) = 100"
    and ce: "effectiveCreatorStake bob 0 ?x (run deployed duel_first_stake) = 25"
    using duel_first_stake_state
    by (simp_all add: effectiveCreatorStake_def effectiveOpponentStake_def
          submittedCreatorStake_def submittedOpponentStake_def alice_def bob_def)
  show ?thesis
    using settlement_never_underflows [OF sub fl] sub duel_first_stake_state(5,8) st oe ce
    by (simp add: Let_def)
qed

subsection \<open>Ties\<close>

text \<open>
  C4. When the two effective stakes of a round are equal, the settlement leaves the
  plaintexts of both balances and of both scores as they were, resets both stakes to
  an encryption of 0 and both submitted flags to false, and increments the round
  counter by exactly 1. Both comparisons of the settlement are then false.
\<close>

theorem settlement_tie:
  assumes "submitStake a gid x p s = Inr s'"
    and "creatorSubmitted (games s gid) \<or> opponentSubmitted (games s gid)"
    and "effectiveCreatorStake a gid x s = effectiveOpponentStake a gid x s"
  shows "(let g = games s gid; g' = games s' gid
          in plain (creatorBalance g') = plain (creatorBalance g) \<and>
             plain (opponentBalance g') = plain (opponentBalance g) \<and>
             plain (creatorScore g') = plain (creatorScore g) \<and>
             plain (opponentScore g') = plain (opponentScore g) \<and>
             uint (round g') = uint (round g) + 1 \<and>
             \<not> creatorSubmitted g' \<and> \<not> opponentSubmitted g' \<and>
             plain (creatorStake g') = 0 \<and> plain (opponentStake g') = 0) \<and>
         (plain u = plain v \<longrightarrow>
            \<not> truth (fst (FHE_gt u v c)) \<and> \<not> truth (fst (FHE_gt v u c')))"
proof -
  let ?g = "games s gid"
  let ?t = "stake_stored a gid x s"
  let ?ce = "effectiveCreatorStake a gid x s"
  let ?oe = "effectiveOpponentStake a gid x s"
  from submitStake_settles(1,2) [OF assms(1,2)]
  have s': "s' = settled gid ?t" and r: "round ?g \<noteq> - 1" .
  have eff: "min (plain (creatorStake (games ?t gid))) (plain (creatorBalance (games ?t gid))) = ?ce"
    "min (plain (opponentStake (games ?t gid))) (plain (opponentBalance (games ?t gid))) = ?oe"
    by (simp_all add: effectiveCreatorStake_def effectiveOpponentStake_def
          submittedCreatorStake_def submittedOpponentStake_def)
  have same: "plain (creatorBalance (games s' gid)) = plain (creatorBalance ?g)"
    "plain (opponentBalance (games s' gid)) = plain (opponentBalance ?g)"
    "plain (creatorScore (games s' gid)) = plain (creatorScore ?g)"
    "plain (opponentScore (games s' gid)) = plain (opponentScore ?g)"
    unfolding s' settled_plain Let_def eff using assms(3) by simp_all
  have rd: "uint (round (games s' gid)) = uint (round ?g) + 1"
    unfolding s' using r by (simp add: settled_game uint_plus_one)
  have reset: "\<not> creatorSubmitted (games s' gid)" "\<not> opponentSubmitted (games s' gid)"
    "plain (creatorStake (games s' gid)) = 0" "plain (opponentStake (games s' gid)) = 0"
    unfolding s' by (simp_all add: settled_game)
  have gt: "plain u = plain v \<longrightarrow>
      \<not> truth (fst (FHE_gt u v c)) \<and> \<not> truth (fst (FHE_gt v u c'))"
    by (simp add: FHE_gt_def)
  from same rd reset gt show ?thesis
    by (simp add: Let_def)
qed

theorem settlement_tie_witness:
  "submitStake alice 0 (ExternalEuint32 15) True (run deployed duel_tie) =
     Inr (settled 0 (stake_stored alice 0 (ExternalEuint32 15) (run deployed duel_tie))) \<and>
   opponentSubmitted (games (run deployed duel_tie) 0) \<and>
   effectiveCreatorStake alice 0 (ExternalEuint32 15) (run deployed duel_tie) = 15 \<and>
   effectiveOpponentStake alice 0 (ExternalEuint32 15) (run deployed duel_tie) = 15 \<and>
   plain (creatorBalance (games (settled 0
     (stake_stored alice 0 (ExternalEuint32 15) (run deployed duel_tie))) 0)) = 100 \<and>
   plain (opponentBalance (games (settled 0
     (stake_stored alice 0 (ExternalEuint32 15) (run deployed duel_tie))) 0)) = 100 \<and>
   plain (creatorScore (games (settled 0
     (stake_stored alice 0 (ExternalEuint32 15) (run deployed duel_tie))) 0)) = 0 \<and>
   plain (opponentScore (games (settled 0
     (stake_stored alice 0 (ExternalEuint32 15) (run deployed duel_tie))) 0)) = 0 \<and>
   uint (round (games (settled 0
     (stake_stored alice 0 (ExternalEuint32 15) (run deployed duel_tie))) 0)) = 2"
proof -
  let ?x = "ExternalEuint32 15"
  have sub: "submitStake alice 0 ?x True (run deployed duel_tie) =
      Inr (settled 0 (stake_stored alice 0 ?x (run deployed duel_tie)))"
    using duel_tie_state
    by (simp add: submitStake_eq resolveRound_eq alice_def bob_def)
  have fl: "creatorSubmitted (games (run deployed duel_tie) 0) \<or>
      opponentSubmitted (games (run deployed duel_tie) 0)"
    using duel_tie_state by simp
  have ce: "effectiveCreatorStake alice 0 ?x (run deployed duel_tie) = 15"
    and oe: "effectiveOpponentStake alice 0 ?x (run deployed duel_tie) = 15"
    using duel_tie_state
    by (simp_all add: effectiveCreatorStake_def effectiveOpponentStake_def
          submittedCreatorStake_def submittedOpponentStake_def)
  have tie: "effectiveCreatorStake alice 0 ?x (run deployed duel_tie) =
      effectiveOpponentStake alice 0 ?x (run deployed duel_tie)"
    using ce oe by simp
  show ?thesis
    using settlement_tie [OF sub fl tie] sub duel_tie_state(4,6,8,9,10,11) ce oe
    by (simp add: Let_def)
qed

subsection \<open>Grants on the stored ciphertexts\<close>



subsection \<open>Duplicate submissions\<close>

text \<open>
  C6, as stated, fails: a second submission of the same side in the same round that
  comes with an invalid input proof is rejected by \<open>FHE.fromExternal\<close>, which runs
  before the check of the submitted flag, so the error is InvalidProof.
\<close>

theorem duplicate_with_invalid_proof:
  "started (games (run deployed duel_first_stake) 0) \<and>
   creator (games (run deployed duel_first_stake) 0) = alice \<and>
   creatorSubmitted (games (run deployed duel_first_stake) 0) \<and>
   submitStake alice 0 (ExternalEuint32 30) False (run deployed duel_first_stake) =
     Inl InvalidProof \<and>
   submitStake alice 0 (ExternalEuint32 30) False (run deployed duel_first_stake) \<noteq>
     Inl DuplicateSubmission"
  using duel_first_stake_state
  by (simp add: submitStake_eq alice_def bob_def)

text \<open>
  C6, amended. A second \<open>submitStake\<close> of the same side in the same round, that is,
  while the submitted flag of that side is set, is always rejected and the failing call
  leaves the whole state unchanged. The error is DuplicateSubmission when the input
  proof is valid and InvalidProof when it is not. In particular this holds for the
  state right after a first submission that did not complete the round.
\<close>

theorem duplicate_submission_rejected:
  shows "(creator (games s gid) \<noteq> 0 \<and> started (games s gid) \<and>
          (a = creator (games s gid) \<and> creatorSubmitted (games s gid) \<or>
           a \<noteq> creator (games s gid) \<and> a = opponent (games s gid) \<and>
             opponentSubmitted (games s gid)) \<longrightarrow>
            submitStake a gid y q s =
              Inl (if q then DuplicateSubmission else InvalidProof) \<and>
            transact (a, SubmitStake gid y q) s = s) \<and>
         (submitStake a gid x p s = Inr s1 \<and>
          \<not> creatorSubmitted (games s gid) \<and> \<not> opponentSubmitted (games s gid) \<longrightarrow>
            submitStake a gid y q s1 =
              Inl (if q then DuplicateSubmission else InvalidProof) \<and>
            transact (a, SubmitStake gid y q) s1 = s1)"
proof -
  have flag: "submitStake a gid y q t =
        Inl (if q then DuplicateSubmission else InvalidProof) \<and>
      transact (a, SubmitStake gid y q) t = t"
    if "creator (games t gid) \<noteq> 0" and "started (games t gid)"
      and "a = creator (games t gid) \<and> creatorSubmitted (games t gid) \<or>
           a \<noteq> creator (games t gid) \<and> a = opponent (games t gid) \<and>
             opponentSubmitted (games t gid)"
    for t
    using that by (auto simp add: submitStake_eq transact_def)
  have first: "submitStake a gid y q s1 =
        Inl (if q then DuplicateSubmission else InvalidProof) \<and>
      transact (a, SubmitStake gid y q) s1 = s1"
    if sub: "submitStake a gid x p s = Inr s1"
      and no: "\<not> creatorSubmitted (games s gid)" "\<not> opponentSubmitted (games s gid)"
  proof -
    from sub no have s1: "s1 = stake_stored a gid x s"
      and c: "creator (games s gid) \<noteq> 0" and st: "started (games s gid)"
      and part: "a = creator (games s gid) \<or> a = opponent (games s gid)"
      by (auto simp add: submitStake_eq split: if_splits)
    show ?thesis
      unfolding s1 using c st part by (intro flag) auto
  qed
  from flag [of s] first show ?thesis by blast
qed

theorem duplicate_submission_rejected_witness:
  "creator (games (run deployed duel_first_stake) 0) \<noteq> 0 \<and>
   started (games (run deployed duel_first_stake) 0) \<and>
   alice = creator (games (run deployed duel_first_stake) 0) \<and>
   creatorSubmitted (games (run deployed duel_first_stake) 0) \<and>
   submitStake alice 0 (ExternalEuint32 30) True (run deployed duel_first_stake) =
     Inl DuplicateSubmission \<and>
   submitStake alice 0 (ExternalEuint32 30) False (run deployed duel_first_stake) =
     Inl InvalidProof \<and>
   transact (alice, SubmitStake 0 (ExternalEuint32 30) True) (run deployed duel_first_stake) =
     run deployed duel_first_stake"
  using duplicate_submission_rejected [of "run deployed duel_first_stake" 0 alice
      "ExternalEuint32 30" True]
    duplicate_submission_rejected [of "run deployed duel_first_stake" 0 alice
      "ExternalEuint32 30" False]
    duel_first_stake_state(1,3,5)
  by (simp add: alice_def)

subsection \<open>Joining a game\<close>

text \<open>
  C7. \<open>joinGame\<close> fails with NotFound on an unallocated identifier, with AlreadyFull
  when the game has an opponent, with SelfJoin when the caller is the creator, and
  otherwise sets the opponent and appends the game to the caller's list. In every
  reachable state the opponent of a game differs from its creator, and an opponent,
  once set, stays the same whatever transactions follow.
\<close>

theorem joinGame_outcomes:
  assumes "list_all valid_tx txs" and "s = run deployed txs" and "a \<noteq> 0"
  shows "(nextGameId s \<le> gid \<longrightarrow> joinGame a gid s = Inl NotFound) \<and>
         (gid < nextGameId s \<and> opponent (games s gid) \<noteq> 0 \<longrightarrow>
            joinGame a gid s = Inl AlreadyFull) \<and>
         (gid < nextGameId s \<and> opponent (games s gid) = 0 \<and> a = creator (games s gid) \<longrightarrow>
            joinGame a gid s = Inl SelfJoin) \<and>
         (gid < nextGameId s \<and> opponent (games s gid) = 0 \<and> a \<noteq> creator (games s gid) \<longrightarrow>
            (\<exists>s'. joinGame a gid s = Inr s' \<and>
               opponent (games s' gid) = a \<and>
               creator (games s' gid) = creator (games s gid) \<and>
               (\<forall>i. i \<noteq> gid \<longrightarrow> games s' i = games s i) \<and>
               gamesByPlayer s' a = gamesByPlayer s a @ [gid] \<and>
               (\<forall>p. p \<noteq> a \<longrightarrow> gamesByPlayer s' p = gamesByPlayer s p) \<and>
               events s' = events s @ [GameJoined gid a])) \<and>
         (gid < nextGameId s \<longrightarrow> opponent (games s gid) \<noteq> creator (games s gid)) \<and>
         (opponent (games s gid) \<noteq> 0 \<and> list_all valid_tx txs' \<longrightarrow>
            opponent (games (run s txs') gid) = opponent (games s gid))"
proof -
  have inv: "registry_inv s"
    using assms by (simp add: run_registry_inv)
  have alloc: "creator (games s gid) \<noteq> 0 \<longleftrightarrow> gid < nextGameId s"
    by (rule registry_inv_allocated [OF inv])
  have "nextGameId s \<le> gid \<longrightarrow> joinGame a gid s = Inl NotFound"
    using alloc by (auto simp add: joinGame_eq)
  moreover have "gid < nextGameId s \<and> opponent (games s gid) \<noteq> 0 \<longrightarrow>
      joinGame a gid s = Inl AlreadyFull"
    using alloc by (auto simp add: joinGame_eq)
  moreover have "gid < nextGameId s \<and> opponent (games s gid) = 0 \<and>
      a = creator (games s gid) \<longrightarrow> joinGame a gid s = Inl SelfJoin"
    using alloc by (auto simp add: joinGame_eq)
  moreover have "gid < nextGameId s \<and> opponent (games s gid) = 0 \<and>
      a \<noteq> creator (games s gid) \<longrightarrow>
        (\<exists>s'. joinGame a gid s = Inr s' \<and>
           opponent (games s' gid) = a \<and>
           creator (games s' gid) = creator (games s gid) \<and>
           (\<forall>i. i \<noteq> gid \<longrightarrow> games s' i = games s i) \<and>
           gamesByPlayer s' a = gamesByPlayer s a @ [gid] \<and>
           (\<forall>p. p \<noteq> a \<longrightarrow> gamesByPlayer s' p = gamesByPlayer s p) \<and>
           events s' = events s @ [GameJoined gid a])"
    using alloc by (auto simp add: joinGame_eq joined_def)
  moreover have "gid < nextGameId s \<longrightarrow> opponent (games s gid) \<noteq> creator (games s gid)"
    using inv by (simp add: registry_inv_opponent)
  moreover have "opponent (games s gid) \<noteq> 0 \<and> list_all valid_tx txs' \<longrightarrow>
      opponent (games (run s txs') gid) = opponent (games s gid)"
    by (simp add: opponent_run)
  ultimately show ?thesis by blast
qed

theorem joinGame_outcomes_witness:
  "list_all valid_tx [(alice, CreateGame)] \<and> bob \<noteq> 0 \<and>
   list_all valid_tx [(alice, CreateGame), (bob, JoinGame 0)] \<and> alice \<noteq> 0 \<and>
   list_all valid_tx [(alice, JoinGame 0), (bob, JoinGame 0), (bob, StartGame 0)] \<and>
   joinGame bob 1 (run deployed [(alice, CreateGame)]) = Inl NotFound \<and>
   joinGame alice 0 (run deployed [(alice, CreateGame)]) = Inl SelfJoin \<and>
   (\<exists>s'. joinGame bob 0 (run deployed [(alice, CreateGame)]) = Inr s' \<and>
      opponent (games s' 0) = bob \<and> creator (games s' 0) = alice \<and>
      gamesByPlayer s' bob = [0]) \<and>
   joinGame alice 0 (run deployed [(alice, CreateGame), (bob, JoinGame 0)]) = Inl AlreadyFull \<and>
   opponent (games (run deployed [(alice, CreateGame), (bob, JoinGame 0)]) 0) = bob \<and>
   opponent (games (run (run deployed [(alice, CreateGame), (bob, JoinGame 0)])
      [(alice, JoinGame 0), (bob, JoinGame 0), (bob, StartGame 0)]) 0) = bob"
proof -
  let ?s0 = "run deployed [(alice, CreateGame)]"
  let ?s1 = "run deployed [(alice, CreateGame), (bob, JoinGame 0)]"
  have v0: "list_all valid_tx [(alice, CreateGame)]"
    and v1: "list_all valid_tx [(alice, CreateGame), (bob, JoinGame 0)]"
    and v2: "list_all valid_tx [(alice, JoinGame 0), (bob, JoinGame 0), (bob, StartGame 0)]"
    and a: "alice \<noteq> 0" and b: "bob \<noteq> 0"
    by (simp_all add: valid_tx_def alice_def bob_def)
  have s0: "nextGameId ?s0 = 1" "opponent (games ?s0 0) = 0" "creator (games ?s0 0) = alice"
    "gamesByPlayer ?s0 bob = []"
    by (simp_all add: transact_def createGame_eq deployed_def zero_Game_def alice_def bob_def)
  have s1: "nextGameId ?s1 = 1" "opponent (games ?s1 0) = bob"
    by (simp_all add: transact_def createGame_eq joinGame_eq deployed_def zero_Game_def
          alice_def bob_def)
  have ab: "bob \<noteq> alice"
    by (simp add: alice_def bob_def)
  show ?thesis
    using joinGame_outcomes [OF v0 refl b, of 1 "[]"]
      joinGame_outcomes [OF v0 refl a, of 0 "[]"]
      joinGame_outcomes [OF v0 refl b, of 0 "[]"]
      joinGame_outcomes [OF v1 refl a, of 0
        "[(alice, JoinGame 0), (bob, JoinGame 0), (bob, StartGame 0)]"]
      v0 v1 v2 a b ab s0 s1
    by auto
qed

subsection \<open>Starting a game\<close>

text \<open>
  C8, as stated, fails: after a start each player holds a decrypt grant on the balance
  of the other player too. Both balances are \<open>FHE.asEuint32(100)\<close>, which is one
  handle, so the grant of the creator on the creator's balance and the grant of the
  opponent on the opponent's balance are grants on the same ciphertext.
\<close>

theorem initial_balances_shared:
  "started (games (run deployed duel_setup) 0) \<and>
   creator (games (run deployed duel_setup) 0) = alice \<and>
   opponent (games (run deployed duel_setup) 0) = bob \<and>
   granted (fhe (run deployed duel_setup))
     (opponentBalance (games (run deployed duel_setup) 0)) (Account alice) \<and>
   granted (fhe (run deployed duel_setup))
     (creatorBalance (games (run deployed duel_setup) 0)) (Account bob)"
  by (simp add: duel_setup_state duel_setup_acl granted_def)

text \<open>
  C8, amended. A successful \<open>startGame\<close> sets the started flag, initialises both
  balances to encryptions of 100 and both scores to encryptions of 0, and grants the
  contract access to all four. Each player receives a decrypt grant on the own balance
  and on both scores, and the call gives a decrypt grant to no account but the two
  players. The two balances are one and the same ciphertext, the encryption of the
  constant 100, so the grant of each player covers the initial balance of the other.
\<close>

theorem startGame_initialises:
  assumes "list_all valid_tx txs" and "s = run deployed txs" and "startGame a gid s = Inr s'"
  shows "let g' = games s' gid; c = fhe s'
         in started g' \<and>
            plain (creatorBalance g') = 100 \<and> plain (opponentBalance g') = 100 \<and>
            plain (creatorScore g') = 0 \<and> plain (opponentScore g') = 0 \<and>
            granted c (creatorBalance g') ThisContract \<and>
            granted c (opponentBalance g') ThisContract \<and>
            granted c (creatorScore g') ThisContract \<and>
            granted c (opponentScore g') ThisContract \<and>
            creator g' \<noteq> opponent g' \<and>
            granted c (creatorBalance g') (Account (creator g')) \<and>
            granted c (opponentBalance g') (Account (opponent g')) \<and>
            granted c (creatorScore g') (Account (creator g')) \<and>
            granted c (creatorScore g') (Account (opponent g')) \<and>
            granted c (opponentScore g') (Account (creator g')) \<and>
            granted c (opponentScore g') (Account (opponent g')) \<and>
            (\<forall>v p. granted c v (Account p) \<and> \<not> granted (fhe s) v (Account p) \<longrightarrow>
               p = creator g' \<or> p = opponent g') \<and>
            creatorBalance g' = opponentBalance g' \<and>
            granted c (creatorBalance g') (Account (opponent g')) \<and>
            granted c (opponentBalance g') (Account (creator g'))"
proof -
  from assms(1,2) have reg: "registry_inv s"
    using run_contract_inv by (simp add: contract_inv_def)
  from assms(3) have s': "s' = begun gid s"
    and c: "creator (games s gid) \<noteq> 0" and o: "opponent (games s gid) \<noteq> 0"
    by (auto simp add: startGame_eq split: if_splits)
  have "gid < nextGameId s"
    using c registry_inv_allocated [OF reg] by blast
  then have ne: "opponent (games s gid) \<noteq> creator (games s gid)"
    using reg by (rule registry_inv_opponent [rotated])
  show ?thesis
    unfolding s' Let_def
    using c o ne by (auto simp add: granted_def acl_begun)
qed

theorem startGame_initialises_witness:
  "list_all valid_tx duel_joined \<and>
   startGame alice 0 (run deployed duel_joined) = Inr (begun 0 (run deployed duel_joined)) \<and>
   creator (games (begun 0 (run deployed duel_joined)) 0) = alice \<and>
   opponent (games (begun 0 (run deployed duel_joined)) 0) = bob \<and>
   (let g' = games (begun 0 (run deployed duel_joined)) 0;
        c = fhe (begun 0 (run deployed duel_joined))
    in started g' \<and>
       plain (creatorBalance g') = 100 \<and> plain (opponentBalance g') = 100 \<and>
       plain (creatorScore g') = 0 \<and> plain (opponentScore g') = 0 \<and>
       granted c (creatorBalance g') ThisContract \<and>
       granted c (opponentBalance g') ThisContract \<and>
       granted c (creatorScore g') ThisContract \<and>
       granted c (opponentScore g') ThisContract \<and>
       creator g' \<noteq> opponent g' \<and>
       granted c (creatorBalance g') (Account (creator g')) \<and>
       granted c (opponentBalance g') (Account (opponent g')) \<and>
       granted c (creatorScore g') (Account (creator g')) \<and>
       granted c (creatorScore g') (Account (opponent g')) \<and>
       granted c (opponentScore g') (Account (creator g')) \<and>
       granted c (opponentScore g') (Account (opponent g')) \<and>
       (\<forall>v p. granted c v (Account p) \<and>
           \<not> granted (fhe (run deployed duel_joined)) v (Account p) \<longrightarrow>
          p = creator g' \<or> p = opponent g') \<and>
       creatorBalance g' = opponentBalance g' \<and>
       granted c (creatorBalance g') (Account (opponent g')) \<and>
       granted c (opponentBalance g') (Account (creator g')))"
proof (intro conjI)
  show "list_all valid_tx duel_joined"
    by (rule duel_valid(1))
  show "startGame alice 0 (run deployed duel_joined) = Inr (begun 0 (run deployed duel_joined))"
    by (rule duel_start)
  show "creator (games (begun 0 (run deployed duel_joined)) 0) = alice"
    and "opponent (games (begun 0 (run deployed duel_joined)) 0) = bob"
    using duel_joined_state by simp_all
  show "let g' = games (begun 0 (run deployed duel_joined)) 0;
        c = fhe (begun 0 (run deployed duel_joined))
    in started g' \<and>
       plain (creatorBalance g') = 100 \<and> plain (opponentBalance g') = 100 \<and>
       plain (creatorScore g') = 0 \<and> plain (opponentScore g') = 0 \<and>
       granted c (creatorBalance g') ThisContract \<and>
       granted c (opponentBalance g') ThisContract \<and>
       granted c (creatorScore g') ThisContract \<and>
       granted c (opponentScore g') ThisContract \<and>
       creator g' \<noteq> opponent g' \<and>
       granted c (creatorBalance g') (Account (creator g')) \<and>
       granted c (opponentBalance g') (Account (opponent g')) \<and>
       granted c (creatorScore g') (Account (creator g')) \<and>
       granted c (creatorScore g') (Account (opponent g')) \<and>
       granted c (opponentScore g') (Account (creator g')) \<and>
       granted c (opponentScore g') (Account (opponent g')) \<and>
       (\<forall>v p. granted c v (Account p) \<and>
           \<not> granted (fhe (run deployed duel_joined)) v (Account p) \<longrightarrow>
          p = creator g' \<or> p = opponent g') \<and>
       creatorBalance g' = opponentBalance g' \<and>
       granted c (creatorBalance g') (Account (opponent g')) \<and>
       granted c (opponentBalance g') (Account (creator g'))"
    by (rule startGame_initialises [OF duel_valid(1) refl duel_start])
qed

subsection \<open>Open games\<close>

text \<open>
  C9. \<open>getOpenGames\<close> returns, in ascending order, exactly the identifiers of the games
  that have a creator and no opponent. After one creation it returns that identifier
  alone, and after the game is joined it returns the empty array.
\<close>

theorem getOpenGames_open_ascending:
  assumes "list_all valid_tx txs" and "s = run deployed txs"
  shows "(\<exists>xs. getOpenGames s = Inr xs \<and> sorted_wrt (<) xs \<and>
            (\<forall>i. i \<in> set xs \<longleftrightarrow> creator (games s i) \<noteq> 0 \<and> opponent (games s i) = 0)) \<and>
         (a \<noteq> 0 \<and> b \<noteq> 0 \<and> a \<noteq> b \<longrightarrow>
            getOpenGames (run deployed [(a, CreateGame)]) = Inr [0] \<and>
            getOpenGames (run deployed [(a, CreateGame), (b, JoinGame 0)]) = Inr [])"
proof (intro conjI impI)
  let ?P = "\<lambda>i. creator (games s i) \<noteq> 0 \<and> opponent (games s i) = 0"
  have inv: "registry_inv s"
    using assms by (simp add: run_registry_inv)
  have "sorted_wrt (<) (filter ?P [0..<nextGameId s])"
    by (rule sorted_wrt_filter) (simp add: sorted_wrt_upt)
  moreover have "\<forall>i. i \<in> set (filter ?P [0..<nextGameId s]) \<longleftrightarrow> ?P i"
    using registry_inv_allocated [OF inv] by auto
  ultimately show "\<exists>xs. getOpenGames s = Inr xs \<and> sorted_wrt (<) xs \<and>
      (\<forall>i. i \<in> set xs \<longleftrightarrow> ?P i)"
    using getOpenGames_eq [of s] by blast
next
  assume "a \<noteq> 0 \<and> b \<noteq> 0 \<and> a \<noteq> b"
  then show "getOpenGames (run deployed [(a, CreateGame)]) = Inr [0]"
    by (simp add: getOpenGames_eq transact_def createGame_eq deployed_def zero_Game_def)
next
  assume "a \<noteq> 0 \<and> b \<noteq> 0 \<and> a \<noteq> b"
  then show "getOpenGames (run deployed [(a, CreateGame), (b, JoinGame 0)]) = Inr []"
    by (simp add: getOpenGames_eq transact_def createGame_eq joinGame_eq deployed_def
          zero_Game_def)
qed

theorem getOpenGames_open_ascending_witness:
  "list_all valid_tx [(alice, CreateGame), (bob, CreateGame), (alice, JoinGame 1)] \<and>
   alice \<noteq> 0 \<and> bob \<noteq> 0 \<and> alice \<noteq> bob \<and>
   (\<exists>xs. getOpenGames (run deployed [(alice, CreateGame), (bob, CreateGame), (alice, JoinGame 1)])
           = Inr xs \<and> sorted_wrt (<) xs \<and>
      (\<forall>i. i \<in> set xs \<longleftrightarrow>
         creator (games (run deployed
           [(alice, CreateGame), (bob, CreateGame), (alice, JoinGame 1)]) i) \<noteq> 0 \<and>
         opponent (games (run deployed
           [(alice, CreateGame), (bob, CreateGame), (alice, JoinGame 1)]) i) = 0)) \<and>
   getOpenGames (run deployed [(alice, CreateGame), (bob, CreateGame), (alice, JoinGame 1)])
     = Inr [0] \<and>
   getOpenGames (run deployed [(alice, CreateGame)]) = Inr [0] \<and>
   getOpenGames (run deployed [(alice, CreateGame), (bob, JoinGame 0)]) = Inr []"
proof -
  have v: "list_all valid_tx [(alice, CreateGame), (bob, CreateGame), (alice, JoinGame 1)]"
    by (simp add: valid_tx_def alice_def bob_def)
  have ab: "alice \<noteq> 0 \<and> bob \<noteq> 0 \<and> alice \<noteq> bob"
    by (simp add: alice_def bob_def)
  have e: "getOpenGames (run deployed
      [(alice, CreateGame), (bob, CreateGame), (alice, JoinGame 1)]) = Inr [0]"
    by (simp add: getOpenGames_eq transact_def createGame_eq joinGame_eq deployed_def
          zero_Game_def alice_def bob_def)
  show ?thesis
    using getOpenGames_open_ascending [OF v refl, of alice bob] v ab e by simp
qed

subsection \<open>The games of a player\<close>

text \<open>
  C10. In every reachable state the list of games of a player holds no identifier twice.
\<close>

theorem getPlayerGames_distinct:
  assumes "list_all valid_tx txs"
  shows "distinct (getPlayerGames player (run deployed txs))"
  using run_registry_inv [OF assms]
  by (simp add: getPlayerGames_def registry_inv_distinct)

theorem getPlayerGames_distinct_witness:
  "list_all valid_tx
     [(alice, CreateGame), (bob, JoinGame 0), (bob, CreateGame), (alice, JoinGame 1),
      (alice, JoinGame 0), (alice, JoinGame 1)] \<and>
   distinct (getPlayerGames alice (run deployed
     [(alice, CreateGame), (bob, JoinGame 0), (bob, CreateGame), (alice, JoinGame 1),
      (alice, JoinGame 0), (alice, JoinGame 1)])) \<and>
   getPlayerGames alice (run deployed
     [(alice, CreateGame), (bob, JoinGame 0), (bob, CreateGame), (alice, JoinGame 1),
      (alice, JoinGame 0), (alice, JoinGame 1)]) = [0, 1]"
proof -
  have v: "list_all valid_tx
     [(alice, CreateGame), (bob, JoinGame 0), (bob, CreateGame), (alice, JoinGame 1),
      (alice, JoinGame 0), (alice, JoinGame 1)]"
    by (simp add: valid_tx_def alice_def bob_def)
  have e: "getPlayerGames alice (run deployed
     [(alice, CreateGame), (bob, JoinGame 0), (bob, CreateGame), (alice, JoinGame 1),
      (alice, JoinGame 0), (alice, JoinGame 1)]) = [0, 1]"
    by (simp add: getPlayerGames_def transact_def createGame_eq joinGame_eq deployed_def
          zero_Game_def alice_def bob_def)
  show ?thesis
    using getPlayerGames_distinct [OF v, of alice] v e by simp
qed

end
